theory Spec2Isabelle
  imports Main "HOL-Library.Char_ord" "HOL-Library.List_Lexorder" "HOL-Library.Product_Lexorder"
begin

section \<open>The knowledge graph of code\_kg\<close>

text \<open>
  This theory embeds the core of the \<^verbatim>\<open>code_kg\<close> package: the entity store of
  \<^verbatim>\<open>graph.py\<close>, the heuristic extractor of \<^verbatim>\<open>extractors/heuristic.py\<close> and the
  scanner of \<^verbatim>\<open>scanner.py\<close>.

  Conventions of the embedding.
  \<^item> A Python \<^verbatim>\<open>str\<close> is a \<open>string\<close>; a character stands for a code point below 256,
    and the character classes of Python (\<^verbatim>\<open>str.isspace\<close>, \<^verbatim>\<open>\w\<close>, \<^verbatim>\<open>str.lower\<close>, the
    line boundaries of \<^verbatim>\<open>str.splitlines\<close>) are written out for that range.
  \<^item> A \<^verbatim>\<open>dict\<close> is a map, a \<^verbatim>\<open>set\<close> is a set. The \<^verbatim>\<open>meta\<close> argument of a node or an
    edge is the list of items of the dictionary passed (\<open>None\<close> when it is omitted).
  \<^item> A method that mutates the graph takes the graph and returns it, with its result.
    A call that may raise returns a value of \<open>exn + 'a\<close>; the graph it returns is the
    one the raise leaves behind, since the Python object keeps every mutation that was
    made before the raise.
  \<^item> A value of type \<open>exn\<close> stands for an exception object, an instance of Python's
    \<^verbatim>\<open>BaseException\<close>; \<open>is_Exception\<close> tells whether it is an instance of
    \<^verbatim>\<open>Exception\<close>, which is what \<^verbatim>\<open>except Exception\<close> catches.
\<close>

subsection \<open>Exceptions\<close>

datatype exn =
    KeyError string
  | IndexError string
  | ValueError string
  | OtherException string
  | KeyboardInterrupt
  | SystemExit
  | OtherBaseException string


text \<open>The argument of the \<^verbatim>\<open>KeyError\<close> that \<^verbatim>\<open>Graph.add_edge\<close> raises itself.\<close>

definition missing_endpoint_msg :: string where
  "missing_endpoint_msg = ''Both source and target nodes must exist before adding an edge''"

subsection \<open>Nodes and edges\<close>

datatype NodeKind = MODULE | TYPE_kind | CLASS | INTERFACE | FUNCTION | METHOD | VARIABLE
  | CONSTANT | ENUM | PACKAGE | FILE | NAMESPACE | RESOURCE | ENDPOINT | UNKNOWN

datatype EdgeKind = CONTAINS | DEFINES | CALLS | IMPORTS | EXTENDS | IMPLEMENTS | REFERENCES
  | RETURNS | PARAM | THROWS | READS | WRITES | DECORATES | OVERRIDES

record Node =
  node_id :: string
  node_name :: string
  node_kind :: NodeKind
  node_meta :: "(string \<times> string) list"

record Edge =
  source :: string
  target :: string
  edge_kind :: EdgeKind
  edge_meta :: "(string \<times> string) list"

text \<open>\<^verbatim>\<open>tuple(sorted((meta or {}).items()))\<close>: the items sorted as Python sorts tuples of
  strings, by code point, the first component first.\<close>

definition sorted_items :: "(string \<times> string) list option \<Rightarrow> (string \<times> string) list" where
  "sorted_items meta = sort (case meta of None \<Rightarrow> [] | Some items \<Rightarrow> items)"

definition Node_from_meta ::
  "string \<Rightarrow> string \<Rightarrow> NodeKind \<Rightarrow> (string \<times> string) list option \<Rightarrow> Node" where
  "Node_from_meta i n k meta =
     \<lparr>node_id = i, node_name = n, node_kind = k, node_meta = sorted_items meta\<rparr>"

definition Edge_from_meta ::
  "string \<Rightarrow> string \<Rightarrow> EdgeKind \<Rightarrow> (string \<times> string) list option \<Rightarrow> Edge" where
  "Edge_from_meta s t k meta =
     \<lparr>source = s, target = t, edge_kind = k, edge_meta = sorted_items meta\<rparr>"

subsection \<open>The graph\<close>

record Graph =
  nodes :: "string \<rightharpoonup> Node"
  out_edges :: "string \<rightharpoonup> Edge set"
  in_edges :: "string \<rightharpoonup> Edge set"

definition Graph_init :: Graph where
  "Graph_init = \<lparr>nodes = Map.empty, out_edges = Map.empty, in_edges = Map.empty\<rparr>"

text \<open>\<^verbatim>\<open>d.setdefault(k, set())\<close>, for its effect on the dictionary.\<close>

definition setdefault_empty :: "(string \<rightharpoonup> Edge set) \<Rightarrow> string \<Rightarrow> (string \<rightharpoonup> Edge set)" where
  "setdefault_empty d k = (case d k of None \<Rightarrow> d(k \<mapsto> {}) | Some _ \<Rightarrow> d)"

definition upsert_node :: "Node \<Rightarrow> Graph \<Rightarrow> Node \<times> Graph" where
  "upsert_node node g =
     (node, \<lparr>nodes = (nodes g)(node_id node \<mapsto> node),
             out_edges = setdefault_empty (out_edges g) (node_id node),
             in_edges = setdefault_empty (in_edges g) (node_id node)\<rparr>)"

definition get_node :: "string \<Rightarrow> Graph \<Rightarrow> Node option" where
  "get_node i g = nodes g i"

definition ensure_node ::
  "string \<Rightarrow> string \<Rightarrow> NodeKind \<Rightarrow> (string \<times> string) list option \<Rightarrow> Graph \<Rightarrow> Node \<times> Graph" where
  "ensure_node i n k meta g =
     (case nodes g i of
        Some node \<Rightarrow> (node, g)
      | None \<Rightarrow> upsert_node (Node_from_meta i n k meta) g)"

text \<open>
  \<^verbatim>\<open>add_edge\<close> checks both endpoints against the node store and raises before it touches
  anything. The two subscriptions that follow raise a \<^verbatim>\<open>KeyError\<close> of their own, with the
  key as argument, when an adjacency dictionary has no entry for the endpoint; the second
  one then leaves the first insertion behind.
\<close>

definition add_edge :: "Edge \<Rightarrow> Graph \<Rightarrow> (exn + Edge) \<times> Graph" where
  "add_edge e g =
     (if nodes g (source e) = None \<or> nodes g (target e) = None
      then (Inl (KeyError missing_endpoint_msg), g)
      else (case out_edges g (source e) of
              None \<Rightarrow> (Inl (KeyError (source e)), g)
            | Some outs \<Rightarrow>
                (let g1 = g\<lparr>out_edges := (out_edges g)(source e \<mapsto> insert e outs)\<rparr>
                 in (case in_edges g1 (target e) of
                       None \<Rightarrow> (Inl (KeyError (target e)), g1)
                     | Some ins \<Rightarrow>
                         (Inr e, g1\<lparr>in_edges := (in_edges g1)(target e \<mapsto> insert e ins)\<rparr>)))))"

definition connect ::
  "string \<Rightarrow> string \<Rightarrow> EdgeKind \<Rightarrow> (string \<times> string) list option \<Rightarrow> Graph \<Rightarrow> (exn + Edge) \<times> Graph" where
  "connect s t k meta g = add_edge (Edge_from_meta s t k meta) g"

text \<open>\<^verbatim>\<open>nodes()\<close> and \<^verbatim>\<open>edges()\<close>, as the collections they traverse.\<close>

definition nodes_of :: "Graph \<Rightarrow> Node set" where
  "nodes_of g = ran (nodes g)"

definition edges_of :: "Graph \<Rightarrow> Edge set" where
  "edges_of g = \<Union> (ran (out_edges g))"

definition node_id_for_file :: "string \<Rightarrow> string" where
  "node_id_for_file path = ''file:'' @ path"

definition node_id_for_symbol :: "string \<Rightarrow> string \<Rightarrow> string" where
  "node_id_for_symbol file_path symbol_name = ''symbol:'' @ file_path @ '':'' @ symbol_name"

text \<open>
  Every graph that the methods build from \<open>Graph_init\<close> has an adjacency entry, in both
  indexes, for each id of its node store.
\<close>

definition well_formed :: "Graph \<Rightarrow> bool" where
  "well_formed g \<longleftrightarrow> dom (nodes g) \<subseteq> dom (out_edges g) \<and> dom (nodes g) \<subseteq> dom (in_edges g)"

section \<open>Strings\<close>

text \<open>The characters for which \<^verbatim>\<open>str.isspace\<close> holds; they are also the class \<^verbatim>\<open>\s\<close>.\<close>

definition is_space :: "char \<Rightarrow> bool" where
  "is_space c =
     (let n = (of_char c :: nat)
      in (9 \<le> n \<and> n \<le> 13) \<or> (28 \<le> n \<and> n \<le> 32) \<or> n = 133 \<or> n = 160)"

text \<open>The class \<^verbatim>\<open>\w\<close>: the alphanumeric characters and the underscore.\<close>

definition is_word :: "char \<Rightarrow> bool" where
  "is_word c =
     (let n = (of_char c :: nat)
      in (48 \<le> n \<and> n \<le> 57) \<or> (65 \<le> n \<and> n \<le> 90) \<or> n = 95 \<or> (97 \<le> n \<and> n \<le> 122)
         \<or> n = 170 \<or> n = 178 \<or> n = 179 \<or> n = 181 \<or> n = 185 \<or> n = 186
         \<or> (188 \<le> n \<and> n \<le> 190) \<or> (192 \<le> n \<and> n \<le> 214) \<or> (216 \<le> n \<and> n \<le> 246)
         \<or> 248 \<le> n)"

text \<open>The characters at which \<^verbatim>\<open>str.splitlines\<close> breaks a line.\<close>

definition is_linebreak :: "char \<Rightarrow> bool" where
  "is_linebreak c =
     (let n = (of_char c :: nat)
      in (10 \<le> n \<and> n \<le> 13) \<or> (28 \<le> n \<and> n \<le> 30) \<or> n = 133)"

definition lower_char :: "char \<Rightarrow> char" where
  "lower_char c =
     (let n = (of_char c :: nat)
      in if (65 \<le> n \<and> n \<le> 90) \<or> (192 \<le> n \<and> n \<le> 222 \<and> n \<noteq> 215)
         then char_of (n + 32) else c)"

definition lower :: "string \<Rightarrow> string" where
  "lower s = map lower_char s"

text \<open>\<^verbatim>\<open>s.strip()\<close> and \<^verbatim>\<open>s.strip(chars)\<close>.\<close>

definition strip :: "string \<Rightarrow> string" where
  "strip s = rev (dropWhile is_space (rev (dropWhile is_space s)))"

definition strip_chars :: "string \<Rightarrow> string \<Rightarrow> string" where
  "strip_chars chars s =
     rev (dropWhile (\<lambda>c. c \<in> set chars) (rev (dropWhile (\<lambda>c. c \<in> set chars) s)))"

text \<open>\<^verbatim>\<open>s.split()\<close>: the maximal runs of characters that are not white space. The first
  argument is the run read so far.\<close>

fun split_ws_from :: "string \<Rightarrow> string \<Rightarrow> string list" where
  "split_ws_from acc [] = (if acc = [] then [] else [acc])"
| "split_ws_from acc (c # cs) =
     (if is_space c
      then (if acc = [] then split_ws_from [] cs else acc # split_ws_from [] cs)
      else split_ws_from (acc @ [c]) cs)"

definition split_ws :: "string \<Rightarrow> string list" where
  "split_ws s = split_ws_from [] s"

text \<open>\<^verbatim>\<open>s.split(sep)\<close> for a separator of one character: never an empty list.\<close>

fun split_on :: "char \<Rightarrow> string \<Rightarrow> string list" where
  "split_on sep [] = [[]]"
| "split_on sep (c # cs) =
     (if c = sep then [] # split_on sep cs
      else (c # hd (split_on sep cs)) # tl (split_on sep cs))"

text \<open>\<^verbatim>\<open>s.splitlines()\<close>: a carriage return followed by a line feed is one boundary, and a
  text that ends at a boundary has no empty last line.\<close>

fun splitlines_from :: "string \<Rightarrow> string \<Rightarrow> string list" where
  "splitlines_from acc [] = (if acc = [] then [] else [acc])"
| "splitlines_from acc [c] = (if is_linebreak c then [acc] else [acc @ [c]])"
| "splitlines_from acc (c # d # cs) =
     (if c = CHR 0x0D \<and> d = CHR 0x0A then acc # splitlines_from [] cs
      else if is_linebreak c then acc # splitlines_from [] (d # cs)
      else splitlines_from (acc @ [c]) (d # cs))"

definition splitlines :: "string \<Rightarrow> string list" where
  "splitlines s = splitlines_from [] s"

text \<open>\<^verbatim>\<open>str(n)\<close> for a natural number.\<close>

function str_nat :: "nat \<Rightarrow> string" where
  "str_nat n = (if n < 10 then [char_of (48 + n)] else str_nat (n div 10) @ [char_of (48 + n mod 10)])"
  by pat_completeness auto
termination
  by (relation "measure (\<lambda>n. n)") auto

declare str_nat.simps [simp del]

text \<open>The functions of \<^verbatim>\<open>os.path\<close> for POSIX paths, where \<^verbatim>\<open>os.sep\<close> is the slash.\<close>

definition os_sep :: char where
  "os_sep = CHR ''/''"

definition basename :: "string \<Rightarrow> string" where
  "basename p = rev (takeWhile (\<lambda>c. c \<noteq> os_sep) (rev p))"

definition startswith :: "string \<Rightarrow> string \<Rightarrow> bool" where
  "startswith s pre = (take (length pre) s = pre)"

text \<open>The second component of \<^verbatim>\<open>os.path.splitext(p)\<close>: the part of the last path segment
  from its last dot on, unless only dots stand before that dot in the segment.\<close>

definition splitext_ext :: "string \<Rightarrow> string" where
  "splitext_ext p =
     (let seg = basename p;
          after = rev (takeWhile (\<lambda>c. c \<noteq> CHR ''.'') (rev seg));
          before = take (length seg - length after - 1) seg
      in if CHR ''.'' \<in> set seg \<and> dropWhile (\<lambda>c. c = CHR ''.'') before \<noteq> []
         then CHR ''.'' # after else [])"


section \<open>Regular expressions\<close>

text \<open>
  The patterns of the extractor use a small part of Python's \<^verbatim>\<open>re\<close>: literals, character
  classes, the greedy quantifiers \<^verbatim>\<open>*\<close>, \<^verbatim>\<open>+\<close> and \<^verbatim>\<open>?\<close> on a class, alternation of
  sequences, \<^verbatim>\<open>\b\<close>, \<^verbatim>\<open>^\<close>, \<^verbatim>\<open>$\<close> and one capturing group. A pattern is written as
  data, item by item as in the source, and matched by a backtracking matcher that
  returns every way to match in the order in which \<^verbatim>\<open>re\<close> tries them; the match
  \<^verbatim>\<open>re\<close> reports is the first.
\<close>

datatype cset_item = Space | Word | Between char char | Ch char

datatype cset = In "cset_item list" | NotIn "cset_item list" | Dot

fun in_item :: "cset_item \<Rightarrow> char \<Rightarrow> bool" where
  "in_item Space c = is_space c"
| "in_item Word c = is_word c"
| "in_item (Between a b) c = (a \<le> c \<and> c \<le> b)"
| "in_item (Ch a) c = (c = a)"

fun in_cset :: "cset \<Rightarrow> char \<Rightarrow> bool" where
  "in_cset (In items) c = list_ex (\<lambda>i. in_item i c) items"
| "in_cset (NotIn items) c = (\<not> list_ex (\<lambda>i. in_item i c) items)"
| "in_cset Dot c = (c \<noteq> CHR 0x0A)"

datatype item = Literal string | OneOf cset | ZeroOrMore cset | OneOrMore cset | Optional cset
  | WordBoundary | LineStart | LineEnd | GroupOpen | GroupClose

datatype rx = Item item | Alternatives "item list list"

record pattern =
  ignorecase :: bool
  rx_items :: "rx list"

text \<open>A state of the matcher: the character before the position (none at the start of
  the string), the rest of the string, the rest as it was where the group opened, and the
  text of the group.\<close>

record mstate =
  m_prev :: "char option"
  m_rest :: string
  m_mark :: string
  m_group :: string

definition at_pos :: "mstate \<Rightarrow> char option \<times> string \<Rightarrow> mstate" where
  "at_pos st pr = st\<lparr>m_prev := fst pr, m_rest := snd pr\<rparr>"

fun literal_prefix :: "bool \<Rightarrow> string \<Rightarrow> char option \<Rightarrow> string \<Rightarrow> (char option \<times> string) option" where
  "literal_prefix ic [] p r = Some (p, r)"
| "literal_prefix ic (l # ls) p [] = None"
| "literal_prefix ic (l # ls) p (c # cs) =
     (if (if ic then lower_char c = lower_char l else c = l)
      then literal_prefix ic ls (Some c) cs else None)"

text \<open>A greedy repetition: the longest run first, then each shorter one.\<close>

fun greedy :: "cset \<Rightarrow> char option \<Rightarrow> string \<Rightarrow> (char option \<times> string) list" where
  "greedy cs p [] = [(p, [])]"
| "greedy cs p (c # r) =
     (if in_cset cs c then greedy cs (Some c) r @ [(p, c # r)] else [(p, c # r)])"

definition one_char :: "cset \<Rightarrow> mstate \<Rightarrow> mstate list" where
  "one_char cs st =
     (case m_rest st of
        [] \<Rightarrow> []
      | c # r \<Rightarrow> if in_cset cs c then [at_pos st (Some c, r)] else [])"

definition word_char :: "char option \<Rightarrow> bool" where
  "word_char p = (case p of None \<Rightarrow> False | Some c \<Rightarrow> is_word c)"

fun m_item :: "bool \<Rightarrow> item \<Rightarrow> mstate \<Rightarrow> mstate list" where
  "m_item ic (Literal s) st =
     (case literal_prefix ic s (m_prev st) (m_rest st) of None \<Rightarrow> [] | Some pr \<Rightarrow> [at_pos st pr])"
| "m_item ic (OneOf cs) st = one_char cs st"
| "m_item ic (ZeroOrMore cs) st = map (at_pos st) (greedy cs (m_prev st) (m_rest st))"
| "m_item ic (OneOrMore cs) st =
     concat (map (\<lambda>s1. map (at_pos s1) (greedy cs (m_prev s1) (m_rest s1))) (one_char cs st))"
| "m_item ic (Optional cs) st = one_char cs st @ [st]"
| "m_item ic WordBoundary st =
     (if word_char (m_prev st) \<noteq> word_char (case m_rest st of [] \<Rightarrow> None | c # _ \<Rightarrow> Some c)
      then [st] else [])"
| "m_item ic LineStart st = (if m_prev st = None then [st] else [])"
| "m_item ic LineEnd st = (if m_rest st = [] \<or> m_rest st = [CHR 0x0A] then [st] else [])"
| "m_item ic GroupOpen st = [st\<lparr>m_mark := m_rest st\<rparr>]"
| "m_item ic GroupClose st =
     [st\<lparr>m_group := take (length (m_mark st) - length (m_rest st)) (m_mark st)\<rparr>]"

fun m_items :: "bool \<Rightarrow> item list \<Rightarrow> mstate \<Rightarrow> mstate list" where
  "m_items ic [] st = [st]"
| "m_items ic (i # is) st = concat (map (m_items ic is) (m_item ic i st))"

fun m_rx :: "bool \<Rightarrow> rx \<Rightarrow> mstate \<Rightarrow> mstate list" where
  "m_rx ic (Item i) st = m_item ic i st"
| "m_rx ic (Alternatives alts) st = concat (map (\<lambda>a. m_items ic a st) alts)"

fun m_rxs :: "bool \<Rightarrow> rx list \<Rightarrow> mstate \<Rightarrow> mstate list" where
  "m_rxs ic [] st = [st]"
| "m_rxs ic (r # rs) st = concat (map (m_rxs ic rs) (m_rx ic r st))"

text \<open>The first match that starts at a position, if there is one.\<close>

definition match_here :: "pattern \<Rightarrow> char option \<Rightarrow> string \<Rightarrow> mstate option" where
  "match_here pat p r =
     (case m_rxs (ignorecase pat) (rx_items pat)
             \<lparr>m_prev = p, m_rest = r, m_mark = r, m_group = []\<rparr> of
        [] \<Rightarrow> None
      | st # _ \<Rightarrow> Some st)"

text \<open>\<^verbatim>\<open>pat.match(s)\<close>, \<^verbatim>\<open>pat.search(s)\<close> and \<^verbatim>\<open>pat.finditer(s)\<close>, each for the text of
  group 1 of the matches. \<^verbatim>\<open>finditer\<close> resumes where the last match ended; no pattern it
  is used with matches the empty string, and the model stops at an empty match.\<close>

definition re_match :: "pattern \<Rightarrow> string \<Rightarrow> string option" where
  "re_match pat s = map_option m_group (match_here pat None s)"

fun search_from :: "pattern \<Rightarrow> char option \<Rightarrow> string \<Rightarrow> string option" where
  "search_from pat p [] = map_option m_group (match_here pat p [])"
| "search_from pat p (c # cs) =
     (case match_here pat p (c # cs) of
        Some st \<Rightarrow> Some (m_group st)
      | None \<Rightarrow> search_from pat (Some c) cs)"

definition re_search :: "pattern \<Rightarrow> string \<Rightarrow> string option" where
  "re_search pat s = search_from pat None s"

function finditer_from :: "pattern \<Rightarrow> char option \<Rightarrow> string \<Rightarrow> string list" where
  "finditer_from pat p r =
     (case match_here pat p r of
        Some st \<Rightarrow>
          (if length (m_rest st) < length r
           then m_group st # finditer_from pat (m_prev st) (m_rest st)
           else [])
      | None \<Rightarrow> (case r of [] \<Rightarrow> [] | c # cs \<Rightarrow> finditer_from pat (Some c) cs))"
  by pat_completeness auto
termination
  by (relation "measure (\<lambda>(pat, p, r). length r)") auto

declare finditer_from.simps [simp del]

definition re_finditer :: "pattern \<Rightarrow> string \<Rightarrow> string list" where
  "re_finditer pat s = finditer_from pat None s"

section \<open>The heuristic extractor\<close>

subsection \<open>The patterns\<close>

definition ws :: cset where
  "ws = In [Space]"

definition ident_start :: cset where
  "ident_start = In [Between (CHR ''A'') (CHR ''Z''), Between (CHR ''a'') (CHR ''z''), Ch (CHR ''_'')]"

definition ident_char :: cset where
  "ident_char = In [Word]"

definition keyword :: "string list \<Rightarrow> rx" where
  "keyword ks = Alternatives (map (\<lambda>k. [Literal k]) ks)"

text \<open>\<^verbatim>\<open>^\s*(?:import|from|using|use|include|require)\b(.+)$\<close>, ignoring case.\<close>

definition IMPORT_PATTERNS :: "pattern list" where
  "IMPORT_PATTERNS =
     [\<lparr>ignorecase = True, rx_items =
        [Item LineStart, Item (ZeroOrMore ws),
         keyword [''import'', ''from'', ''using'', ''use'', ''include'', ''require''],
         Item WordBoundary, Item GroupOpen, Item (OneOrMore Dot), Item GroupClose,
         Item LineEnd]\<rparr>]"

text \<open>\<^verbatim>\<open>^\s*(?:def|function|fn|proc|sub|lambda|async\s+function)\s+([A-Za-z_][\w]*)\b\<close> and
  \<^verbatim>\<open>^\s*([A-Za-z_][\w]*)\s*\([^)]*\)\s*\{?\s*$\<close>.\<close>

definition FUNCTION_DEF_PATTERNS :: "pattern list" where
  "FUNCTION_DEF_PATTERNS =
     [\<lparr>ignorecase = False, rx_items =
        [Item LineStart, Item (ZeroOrMore ws),
         Alternatives [[Literal ''def''], [Literal ''function''], [Literal ''fn''],
                       [Literal ''proc''], [Literal ''sub''], [Literal ''lambda''],
                       [Literal ''async'', OneOrMore ws, Literal ''function'']],
         Item (OneOrMore ws), Item GroupOpen, Item (OneOf ident_start),
         Item (ZeroOrMore ident_char), Item GroupClose, Item WordBoundary]\<rparr>,
      \<lparr>ignorecase = False, rx_items =
        [Item LineStart, Item (ZeroOrMore ws), Item GroupOpen, Item (OneOf ident_start),
         Item (ZeroOrMore ident_char), Item GroupClose, Item (ZeroOrMore ws),
         Item (Literal ''(''), Item (ZeroOrMore (NotIn [Ch (CHR '')'')])), Item (Literal '')''),
         Item (ZeroOrMore ws), Item (Optional (In [Ch (CHR ''{'')])), Item (ZeroOrMore ws),
         Item LineEnd]\<rparr>]"

text \<open>\<^verbatim>\<open>^\s*(?:class|struct|interface|trait)\s+([A-Za-z_][\w]*)\<close>.\<close>

definition CLASS_DEF_PATTERNS :: "pattern list" where
  "CLASS_DEF_PATTERNS =
     [\<lparr>ignorecase = False, rx_items =
        [Item LineStart, Item (ZeroOrMore ws),
         keyword [''class'', ''struct'', ''interface'', ''trait''],
         Item (OneOrMore ws), Item GroupOpen, Item (OneOf ident_start),
         Item (ZeroOrMore ident_char), Item GroupClose]\<rparr>]"

text \<open>\<^verbatim>\<open>\b(?:extends|implements|:|with)\s+([A-Za-z_][\w]*)\<close>.\<close>

definition EXTENDS_PATTERN :: pattern where
  "EXTENDS_PATTERN =
     \<lparr>ignorecase = False, rx_items =
        [Item WordBoundary, keyword [''extends'', ''implements'', '':'', ''with''],
         Item (OneOrMore ws), Item GroupOpen, Item (OneOf ident_start),
         Item (ZeroOrMore ident_char), Item GroupClose]\<rparr>"

text \<open>\<^verbatim>\<open>^\s*(?:const|constexpr|final|immutable)\s+([A-Za-z_][\w]*)\b\<close>.\<close>

definition CONST_PATTERNS :: "pattern list" where
  "CONST_PATTERNS =
     [\<lparr>ignorecase = False, rx_items =
        [Item LineStart, Item (ZeroOrMore ws),
         keyword [''const'', ''constexpr'', ''final'', ''immutable''],
         Item (OneOrMore ws), Item GroupOpen, Item (OneOf ident_start),
         Item (ZeroOrMore ident_char), Item GroupClose, Item WordBoundary]\<rparr>]"

text \<open>\<^verbatim>\<open>^\s*(?:var|let|mut|auto|int|float|str|bool|char|double|long|short)\s+([A-Za-z_][\w]*)\b\<close>.\<close>

definition VAR_PATTERNS :: "pattern list" where
  "VAR_PATTERNS =
     [\<lparr>ignorecase = False, rx_items =
        [Item LineStart, Item (ZeroOrMore ws),
         keyword [''var'', ''let'', ''mut'', ''auto'', ''int'', ''float'', ''str'', ''bool'',
                  ''char'', ''double'', ''long'', ''short''],
         Item (OneOrMore ws), Item GroupOpen, Item (OneOf ident_start),
         Item (ZeroOrMore ident_char), Item GroupClose, Item WordBoundary]\<rparr>]"

text \<open>\<^verbatim>\<open>\b([A-Za-z_][\w]*)\s*\(\<close>.\<close>

definition CALL_PATTERN :: pattern where
  "CALL_PATTERN =
     \<lparr>ignorecase = False, rx_items =
        [Item WordBoundary, Item GroupOpen, Item (OneOf ident_start),
         Item (ZeroOrMore ident_char), Item GroupClose, Item (ZeroOrMore ws),
         Item (Literal ''('')]\<rparr>"

text \<open>\<^verbatim>\<open>\b(https?://[^\s'")]+|/[^\s'")]+)\b\<close>.\<close>

definition resource_char :: cset where
  "resource_char = NotIn [Space, Ch (CHR 0x27), Ch (CHR 0x22), Ch (CHR '')'')]"

definition RESOURCE_PATTERN :: pattern where
  "RESOURCE_PATTERN =
     \<lparr>ignorecase = False, rx_items =
        [Item WordBoundary, Item GroupOpen,
         Alternatives [[Literal ''http'', Optional (In [Ch (CHR ''s'')]), Literal ''://'',
                        OneOrMore resource_char],
                       [Literal ''/'', OneOrMore resource_char]],
         Item GroupClose, Item WordBoundary]\<rparr>"

definition WRITE_VERBS :: "string set" where
  "WRITE_VERBS = {''write'', ''save'', ''put'', ''append'', ''update'', ''post''}"

definition READ_VERBS :: "string set" where
  "READ_VERBS = {''read'', ''get'', ''open'', ''fetch'', ''load'', ''download''}"

subsection \<open>Statements on the graph\<close>

text \<open>
  The body of \<^verbatim>\<open>extract\<close> is a sequence of calls on the graph whose results it drops. A
  statement takes the graph and returns the graph it leaves, with the exception it raised
  if it raised one; a raise ends the sequence.
\<close>

type_synonym stmt = "Graph \<Rightarrow> exn option \<times> Graph"

definition skip :: stmt where
  "skip g = (None, g)"

definition raise :: "exn \<Rightarrow> stmt" where
  "raise e g = (Some e, g)"

definition seq :: "stmt \<Rightarrow> stmt \<Rightarrow> stmt" where
  "seq s1 s2 g = (case s1 g of (None, g1) \<Rightarrow> s2 g1 | (Some e, g1) \<Rightarrow> (Some e, g1))"

fun for_each :: "'a list \<Rightarrow> ('a \<Rightarrow> stmt) \<Rightarrow> stmt" where
  "for_each [] body = skip"
| "for_each (x # xs) body = seq (body x) (for_each xs body)"

definition do_ensure_node ::
  "string \<Rightarrow> string \<Rightarrow> NodeKind \<Rightarrow> (string \<times> string) list option \<Rightarrow> stmt" where
  "do_ensure_node i n k meta g = (None, snd (ensure_node i n k meta g))"

definition do_connect ::
  "string \<Rightarrow> string \<Rightarrow> EdgeKind \<Rightarrow> (string \<times> string) list option \<Rightarrow> stmt" where
  "do_connect s t k meta g =
     (case connect s t k meta g of (Inl e, g1) \<Rightarrow> (Some e, g1) | (Inr _, g1) \<Rightarrow> (None, g1))"

subsection \<open>\<^verbatim>\<open>HeuristicExtractor.extract\<close>\<close>

text \<open>The loop over a list of patterns that stops at the first one that matches the line:
  group 1 of that match.\<close>

fun first_match :: "pattern list \<Rightarrow> string \<Rightarrow> string option" where
  "first_match [] line = None"
| "first_match (pat # pats) line =
     (case re_match pat line of Some m \<Rightarrow> Some m | None \<Rightarrow> first_match pats line)"

text \<open>The body of the loop over the lines for imports. \<^verbatim>\<open>target_raw.split()[0]\<close> raises
  an \<^verbatim>\<open>IndexError\<close> when nothing is left of the text after the keyword.\<close>

definition import_line :: "string \<Rightarrow> string \<Rightarrow> stmt" where
  "import_line file_id line =
     (case first_match IMPORT_PATTERNS line of
        None \<Rightarrow> skip
      | Some m \<Rightarrow>
          (let target_raw = strip_chars '';{}()'' (strip m)
           in (case split_ws target_raw of
                 [] \<Rightarrow> raise (IndexError ''list index out of range'')
               | target_name # _ \<Rightarrow>
                   (let imported_id = ''import:'' @ target_name
                    in seq (do_ensure_node imported_id target_name MODULE None)
                           (do_connect file_id imported_id IMPORTS
                              (Some [(''text'', strip line)]))))))"

text \<open>The body of the loop for class and function definitions; a line that defines a
  class is not looked at as a function.\<close>

definition definition_line :: "string \<Rightarrow> string \<Rightarrow> nat \<times> string \<Rightarrow> stmt" where
  "definition_line file_path file_id il =
     (let idx = fst il; line = snd il
      in (case first_match CLASS_DEF_PATTERNS line of
            Some class_name \<Rightarrow>
              (let class_id = node_id_for_symbol file_path class_name
               in seq (do_ensure_node class_id class_name CLASS
                         (Some [(''line'', str_nat idx), (''file'', file_path)]))
                      (case re_search EXTENDS_PATTERN line of
                         None \<Rightarrow> skip
                       | Some base \<Rightarrow>
                           (let base_id = ''type:'' @ base
                            in seq (do_ensure_node base_id base TYPE_kind None)
                                   (do_connect class_id base_id EXTENDS
                                      (Some [(''line'', str_nat idx)])))))
          | None \<Rightarrow>
              (case first_match FUNCTION_DEF_PATTERNS line of
                 None \<Rightarrow> skip
               | Some func_name \<Rightarrow>
                   (let func_id = node_id_for_symbol file_path func_name
                    in seq (do_ensure_node func_id func_name FUNCTION
                              (Some [(''line'', str_nat idx), (''file'', file_path)]))
                           (do_connect file_id func_id CONTAINS None)))))"

text \<open>The body of the loop for constants and variables: both lists of patterns are tried
  on every line.\<close>

definition variable_line :: "string \<Rightarrow> string \<Rightarrow> nat \<times> string \<Rightarrow> stmt" where
  "variable_line file_path file_id il =
     (let idx = fst il; line = snd il
      in seq (case first_match CONST_PATTERNS line of
                None \<Rightarrow> skip
              | Some const_name \<Rightarrow>
                  (let const_id = node_id_for_symbol file_path const_name
                   in seq (do_ensure_node const_id const_name CONSTANT
                             (Some [(''line'', str_nat idx), (''file'', file_path)]))
                          (do_connect file_id const_id CONTAINS None)))
             (case first_match VAR_PATTERNS line of
                None \<Rightarrow> skip
              | Some var_name \<Rightarrow>
                  (let var_id = node_id_for_symbol file_path var_name
                   in seq (do_ensure_node var_id var_name VARIABLE
                             (Some [(''line'', str_nat idx), (''file'', file_path)]))
                          (do_connect file_id var_id CONTAINS None))))"

text \<open>\<^verbatim>\<open>line.strip().split("(")[0].split()[:1]\<close>, lower-cased, or the empty string.\<close>

definition leading_verb :: "string \<Rightarrow> string" where
  "leading_verb line =
     (case take 1 (split_ws (hd (split_on (CHR ''('') (strip line)))) of
        [] \<Rightarrow> []
      | v # _ \<Rightarrow> lower v)"

definition call_match :: "string \<Rightarrow> nat \<Rightarrow> string \<Rightarrow> stmt" where
  "call_match file_id idx callee =
     (let callee_id = ''symbol:any:'' @ callee
      in seq (do_ensure_node callee_id callee FUNCTION None)
             (do_connect file_id callee_id CALLS (Some [(''line'', str_nat idx)])))"

definition resource_match :: "string \<Rightarrow> nat \<Rightarrow> string \<Rightarrow> string \<Rightarrow> stmt" where
  "resource_match file_id idx line resource =
     (let resource_id = ''resource:'' @ resource;
          verb = leading_verb line
      in seq (do_ensure_node resource_id resource RESOURCE None)
             (if verb \<in> WRITE_VERBS
              then do_connect file_id resource_id WRITES (Some [(''line'', str_nat idx)])
              else if verb \<in> READ_VERBS
              then do_connect file_id resource_id READS (Some [(''line'', str_nat idx)])
              else skip))"

definition call_resource_line :: "string \<Rightarrow> nat \<times> string \<Rightarrow> stmt" where
  "call_resource_line file_id il =
     (let idx = fst il; line = snd il
      in seq (for_each (re_finditer CALL_PATTERN line) (call_match file_id idx))
             (for_each (re_finditer RESOURCE_PATTERN line) (resource_match file_id idx line)))"

definition HeuristicExtractor_supports :: "string \<Rightarrow> string \<Rightarrow> exn + bool" where
  "HeuristicExtractor_supports file_path text = Inr True"

definition HeuristicExtractor_extract :: "string \<Rightarrow> string \<Rightarrow> stmt" where
  "HeuristicExtractor_extract file_path text =
     (let file_id = node_id_for_file file_path;
          lines = splitlines text
      in seq (do_ensure_node file_id (basename file_path) FILE (Some [(''path'', file_path)]))
        (seq (for_each lines (import_line file_id))
        (seq (for_each (enumerate 1 lines) (definition_line file_path file_id))
        (seq (for_each (enumerate 1 lines) (variable_line file_path file_id))
             (for_each (enumerate 1 lines) (call_resource_line file_id))))))"

section \<open>The scanner\<close>

text \<open>An extractor is any implementation of the two abstract methods.\<close>

record Extractor =
  Extractor_supports :: "string \<Rightarrow> string \<Rightarrow> exn + bool"
  Extractor_extract :: "string \<Rightarrow> string \<Rightarrow> stmt"

definition HeuristicExtractor :: Extractor where
  "HeuristicExtractor =
     \<lparr>Extractor_supports = HeuristicExtractor_supports,
      Extractor_extract = HeuristicExtractor_extract\<rparr>"

definition DEFAULT_IGNORES :: "string list" where
  "DEFAULT_IGNORES = [''.git'', ''node_modules'', ''.venv'', ''__pycache__'', ''.idea'',
     ''.vscode'', ''dist'', ''build'']"

record Scanner =
  extractors :: "Extractor list"
  extensions :: "string set option"
  ignores :: "string set"

text \<open>\<^verbatim>\<open>Scanner.__init__\<close>: an argument that is \<open>None\<close> or empty is replaced by its
  default, except the extensions, which are kept as they are given.\<close>

definition Scanner_init ::
  "Extractor list option \<Rightarrow> string list option \<Rightarrow> string list option \<Rightarrow> Scanner" where
  "Scanner_init exs exts igns =
     \<lparr>extractors = (case exs of None \<Rightarrow> [HeuristicExtractor]
                     | Some l \<Rightarrow> if l = [] then [HeuristicExtractor] else l),
      extensions = map_option set exts,
      ignores = (case igns of None \<Rightarrow> set DEFAULT_IGNORES
                 | Some l \<Rightarrow> if l = [] then set DEFAULT_IGNORES else set l)\<rparr>"

text \<open>The file system, as far as the scanner asks: which paths are regular files, the
  directory tree below a path that is a directory, and what opening and reading a file
  gives. A path that holds a NUL character names nothing: \<^verbatim>\<open>os.path.isfile\<close> answers
  \<open>False\<close> for it, and \<^verbatim>\<open>os.walk\<close> raises a \<^verbatim>\<open>ValueError\<close>.\<close>

datatype dir = Dir "(string \<times> dir) list" "string list"

record filesystem =
  isfile :: "string \<Rightarrow> bool"
  directory :: "string \<Rightarrow> dir option"
  read_text :: "string \<Rightarrow> exn + string"

definition has_nul :: "string \<Rightarrow> bool" where
  "has_nul p = (CHR 0x00 \<in> set p)"

definition os_path_isfile :: "filesystem \<Rightarrow> string \<Rightarrow> bool" where
  "os_path_isfile fs p = (\<not> has_nul p \<and> isfile fs p)"

definition should_include_file :: "Scanner \<Rightarrow> filesystem \<Rightarrow> string \<Rightarrow> bool" where
  "should_include_file sc fs path =
     (let base = basename path
      in if startswith base ''.'' then False
         else if list_ex (\<lambda>part. part \<in> ignores sc) (split_on os_sep path) then False
         else (case extensions sc of
                 Some exts \<Rightarrow> lower (splitext_ext base) \<in> exts
               | None \<Rightarrow> os_path_isfile fs path))"








subsection \<open>Notions for the statements about the scanner\<close>









subsection \<open>Notions for the statement about running the extractor twice\<close>

text \<open>A graph \<open>h\<close> holds a graph \<open>g\<close> when every node of \<open>g\<close> is stored in \<open>h\<close> under the same
  id and every set of edges of \<open>g\<close> is part of the set that \<open>h\<close> has under the same id.\<close>

definition le_graph :: "Graph \<Rightarrow> Graph \<Rightarrow> bool" where
  "le_graph g h \<longleftrightarrow>
     nodes g \<subseteq>\<^sub>m nodes h
     \<and> (\<forall>k es. out_edges g k = Some es \<longrightarrow> (\<exists>es'. out_edges h k = Some es' \<and> es \<subseteq> es'))
     \<and> (\<forall>k es. in_edges g k = Some es \<longrightarrow> (\<exists>es'. in_edges h k = Some es' \<and> es \<subseteq> es'))"

text \<open>A statement is stable, for graphs that have the nodes \<open>A\<close>, when it keeps a graph
  well formed, only adds to it, raises no \<^verbatim>\<open>KeyError\<close>, and, run on any well-formed graph
  that holds the graph it left, ends as it did the first time and changes nothing.\<close>

definition stable :: "string set \<Rightarrow> stmt \<Rightarrow> bool" where
  "stable A s \<longleftrightarrow>
     (\<forall>g. well_formed g \<and> A \<subseteq> dom (nodes g) \<longrightarrow>
        well_formed (snd (s g)) \<and> le_graph g (snd (s g))
        \<and> (\<forall>k. fst (s g) \<noteq> Some (KeyError k))
        \<and> (\<forall>h. well_formed h \<and> le_graph (snd (s g)) h \<longrightarrow> s h = (fst (s g), h)))"

subsection \<open>Notions for the statements about the verbs\<close>

text \<open>The leading token of a line as the specification words it: the text before the first
  opening parenthesis of the line, lower-cased. The extractor computes \<open>leading_verb\<close>.\<close>

definition spec_leading_token :: "string \<Rightarrow> string" where
  "spec_leading_token line = lower (takeWhile (\<lambda>c. c \<noteq> CHR ''('') line)"

text \<open>The edges that \<^verbatim>\<open>extract\<close> adds for one resource literal of a line.\<close>

definition verb_edges :: "string \<Rightarrow> nat \<Rightarrow> string \<Rightarrow> string \<Rightarrow> Edge set" where
  "verb_edges file_id idx line resource =
     (if leading_verb line \<in> WRITE_VERBS
      then {Edge_from_meta file_id (''resource:'' @ resource) WRITES
              (Some [(''line'', str_nat idx)])}
      else if leading_verb line \<in> READ_VERBS
      then {Edge_from_meta file_id (''resource:'' @ resource) READS
              (Some [(''line'', str_nat idx)])}
      else {})"

section \<open>Evaluation\<close>

text \<open>\<open>split_on\<close> with one recursive call for each character.\<close>

lemma split_on_code [code]:
  "split_on sep [] = [[]]"
  "split_on sep (c # cs) =
     (if c = sep then [] # split_on sep cs
      else (case split_on sep cs of
              [] \<Rightarrow> (c # hd []) # tl []
            | x # xs \<Rightarrow> (c # x) # xs))"
  by (simp_all split: list.splits)

lemma str_nat_1: "str_nat 1 = ''1''"
  by code_simp

lemma str_nat_Suc_0: "str_nat (Suc 0) = ''1''"
  using str_nat_1 by simp

section \<open>Properties of the graph\<close>

lemma well_formed_init: "well_formed Graph_init"
  by (simp add: well_formed_def Graph_init_def)

lemma dom_setdefault_empty: "dom (setdefault_empty d k) = insert k (dom d)"
  by (auto simp: setdefault_empty_def split: option.splits)

lemma well_formed_upsert_node: "well_formed g \<Longrightarrow> well_formed (snd (upsert_node n g))"
  by (auto simp: well_formed_def upsert_node_def dom_setdefault_empty)

lemma well_formed_ensure_node: "well_formed g \<Longrightarrow> well_formed (snd (ensure_node i n k m g))"
  using well_formed_upsert_node by (simp add: ensure_node_def split: option.splits)

lemma well_formed_add_edge: "well_formed g \<Longrightarrow> well_formed (snd (add_edge e g))"
  by (auto simp: well_formed_def add_edge_def Let_def split: option.splits)

text \<open>
  C2. Whenever the source id or the target id of an edge is not a key of the node store,
  \<^verbatim>\<open>add_edge\<close> raises the \<^verbatim>\<open>KeyError\<close> with its own message, and the graph it leaves
  behind is the graph it was given: node store and both adjacency indexes are unchanged.
\<close>

theorem add_edge_missing_endpoint:
  assumes "source e \<notin> dom (nodes g) \<or> target e \<notin> dom (nodes g)"
  shows "add_edge e g = (Inl (KeyError missing_endpoint_msg), g)"
  using assms by (auto simp: add_edge_def)

theorem add_edge_missing_endpoint_witness:
  "nodes (snd (ensure_node ''b'' ''b'' FUNCTION None Graph_init)) ''a'' = None
   \<and> add_edge (Edge_from_meta ''a'' ''b'' CALLS None)
        (snd (ensure_node ''b'' ''b'' FUNCTION None Graph_init))
     = (Inl (KeyError missing_endpoint_msg),
        snd (ensure_node ''b'' ''b'' FUNCTION None Graph_init))"
proof -
  have h: "nodes (snd (ensure_node ''b'' ''b'' FUNCTION None Graph_init)) ''a'' = None"
    by (simp add: ensure_node_def upsert_node_def Graph_init_def Node_from_meta_def)
  then have "source (Edge_from_meta ''a'' ''b'' CALLS None)
      \<notin> dom (nodes (snd (ensure_node ''b'' ''b'' FUNCTION None Graph_init)))"
    by (simp add: Edge_from_meta_def domIff)
  then show ?thesis using h add_edge_missing_endpoint by blast
qed

text \<open>
  C3. First writer wins. Two calls of \<^verbatim>\<open>ensure_node\<close> for one id, with arguments of any
  kind: the second call returns the node the first call returned and leaves the graph as
  the first call left it, that node is the one stored under the id, and it is the node
  built from the first call's values whenever the id was not in the store before.
\<close>

theorem ensure_node_first_writer_wins:
  "ensure_node i name2 kind2 meta2 (snd (ensure_node i name1 kind1 meta1 g))
     = ensure_node i name1 kind1 meta1 g
   \<and> nodes (snd (ensure_node i name1 kind1 meta1 g)) i
     = Some (fst (ensure_node i name1 kind1 meta1 g))
   \<and> (nodes g i = None \<longrightarrow>
        fst (ensure_node i name1 kind1 meta1 g) = Node_from_meta i name1 kind1 meta1)"
  by (auto simp: ensure_node_def upsert_node_def Node_from_meta_def split: option.splits)

theorem ensure_node_first_writer_wins_witness:
  "ensure_node ''k'' ''second'' CLASS (Some [(''line'', ''7'')])
       (snd (ensure_node ''k'' ''first'' FUNCTION (Some [(''line'', ''1'')]) Graph_init))
     = ensure_node ''k'' ''first'' FUNCTION (Some [(''line'', ''1'')]) Graph_init
   \<and> nodes (snd (ensure_node ''k'' ''first'' FUNCTION (Some [(''line'', ''1'')]) Graph_init)) ''k''
     = Some (Node_from_meta ''k'' ''first'' FUNCTION (Some [(''line'', ''1'')]))
   \<and> nodes Graph_init ''k'' = None"
proof -
  have h: "nodes Graph_init ''k'' = None"
    by (simp add: Graph_init_def)
  show ?thesis
    using h ensure_node_first_writer_wins [where i = "''k''" and ?name1.0 = "''first''"
        and ?kind1.0 = FUNCTION and ?meta1.0 = "Some [(''line'', ''1'')]" and g = Graph_init
        and ?name2.0 = "''second''" and ?kind2.0 = CLASS and ?meta2.0 = "Some [(''line'', ''7'')]"]
    by simp
qed

section \<open>Running the extractor twice\<close>

lemma le_graph_refl: "le_graph g g"
  by (simp add: le_graph_def)

lemma le_graph_trans: "le_graph a b \<Longrightarrow> le_graph b c \<Longrightarrow> le_graph a c"
  unfolding le_graph_def
  by (meson map_le_trans subset_trans)

lemma le_graph_dom: "le_graph g h \<Longrightarrow> dom (nodes g) \<subseteq> dom (nodes h)"
  by (simp add: le_graph_def map_le_implies_dom_le)

lemma stableI:
  assumes "\<And>g. well_formed g \<Longrightarrow> A \<subseteq> dom (nodes g) \<Longrightarrow>
     well_formed (snd (s g)) \<and> le_graph g (snd (s g))
        \<and> (\<forall>k. fst (s g) \<noteq> Some (KeyError k))
        \<and> (\<forall>h. well_formed h \<and> le_graph (snd (s g)) h \<longrightarrow> s h = (fst (s g), h))"
  shows "stable A s"
  using assms unfolding stable_def by blast

lemma stableD:
  assumes "stable A s" "well_formed g" "A \<subseteq> dom (nodes g)"
  shows "well_formed (snd (s g))" "le_graph g (snd (s g))" "fst (s g) \<noteq> Some (KeyError k)"
    "well_formed h \<Longrightarrow> le_graph (snd (s g)) h \<Longrightarrow> s h = (fst (s g), h)"
  using assms unfolding stable_def by blast+

lemma stable_mono: "stable A s \<Longrightarrow> A \<subseteq> B \<Longrightarrow> stable B s"
  unfolding stable_def by (meson subset_trans)

lemma stable_skip: "stable A skip"
  by (simp add: stable_def skip_def le_graph_refl)

lemma stable_raise_IndexError: "stable A (raise (IndexError m))"
  by (simp add: stable_def raise_def le_graph_refl)

lemma stable_seq:
  assumes s1: "stable A s1" and s2: "stable A s2"
  shows "stable A (seq s1 s2)"
proof (rule stableI)
  fix g assume wf: "well_formed g" and A: "A \<subseteq> dom (nodes g)"
  obtain r1 g1 where e1: "s1 g = (r1, g1)" by (cases "s1 g")
  have wf1: "well_formed g1" and le1: "le_graph g g1" and nk1: "\<And>k. r1 \<noteq> Some (KeyError k)"
    and id1: "\<And>h. well_formed h \<Longrightarrow> le_graph g1 h \<Longrightarrow> s1 h = (r1, h)"
    using stableD [OF s1 wf A] e1 by auto
  show "well_formed (snd (seq s1 s2 g)) \<and> le_graph g (snd (seq s1 s2 g))
        \<and> (\<forall>k. fst (seq s1 s2 g) \<noteq> Some (KeyError k))
        \<and> (\<forall>h. well_formed h \<and> le_graph (snd (seq s1 s2 g)) h \<longrightarrow> seq s1 s2 h = (fst (seq s1 s2 g), h))"
  proof (cases r1)
    case (Some e)
    then have "seq s1 s2 g = (Some e, g1)" by (simp add: seq_def e1)
    moreover have "\<And>h. well_formed h \<Longrightarrow> le_graph g1 h \<Longrightarrow> seq s1 s2 h = (Some e, h)"
      using id1 Some by (simp add: seq_def)
    ultimately show ?thesis using wf1 le1 nk1 Some by auto
  next
    case None
    have A1: "A \<subseteq> dom (nodes g1)" using A le_graph_dom [OF le1] by blast
    obtain r2 g2 where e2: "s2 g1 = (r2, g2)" by (cases "s2 g1")
    have wf2: "well_formed g2" and le2: "le_graph g1 g2" and nk2: "\<And>k. r2 \<noteq> Some (KeyError k)"
      and id2: "\<And>h. well_formed h \<Longrightarrow> le_graph g2 h \<Longrightarrow> s2 h = (r2, h)"
      using stableD [OF s2 wf1 A1] e2 by auto
    have r: "seq s1 s2 g = (r2, g2)" by (simp add: seq_def e1 None e2)
    have "seq s1 s2 h = (r2, h)" if "well_formed h" "le_graph g2 h" for h
    proof -
      have "le_graph g1 h" using le2 that(2) by (rule le_graph_trans)
      then have "s1 h = (None, h)" using id1 that(1) None by simp
      then show ?thesis using id2 that by (simp add: seq_def)
    qed
    then show ?thesis using r wf2 nk2 le_graph_trans [OF le1 le2] by auto
  qed
qed

lemma stable_for_each:
  assumes "\<And>x. x \<in> set xs \<Longrightarrow> stable A (body x)"
  shows "stable A (for_each xs body)"
  using assms by (induction xs) (auto intro: stable_skip stable_seq)

lemma ensure_node_props:
  assumes "well_formed g"
  shows "well_formed (snd (ensure_node i n k m g))"
    and "le_graph g (snd (ensure_node i n k m g))"
    and "i \<in> dom (nodes (snd (ensure_node i n k m g)))"
proof -
  show "well_formed (snd (ensure_node i n k m g))"
    using assms by (rule well_formed_ensure_node)
  show "le_graph g (snd (ensure_node i n k m g))"
    by (auto simp: le_graph_def ensure_node_def upsert_node_def setdefault_empty_def map_le_def
        Node_from_meta_def split: option.splits)
  show "i \<in> dom (nodes (snd (ensure_node i n k m g)))"
    by (auto simp: ensure_node_def upsert_node_def Node_from_meta_def split: option.splits)
qed

lemma ensure_node_present: "i \<in> dom (nodes h) \<Longrightarrow> do_ensure_node i n k m h = (None, h)"
  by (auto simp: do_ensure_node_def ensure_node_def)

lemma stable_ensure_then:
  assumes s: "stable (insert i A) s"
  shows "stable A (seq (do_ensure_node i n k m) s)"
proof (rule stableI)
  fix g assume wf: "well_formed g" and A: "A \<subseteq> dom (nodes g)"
  define g1 where "g1 = snd (ensure_node i n k m g)"
  have wf1: "well_formed g1" and le1: "le_graph g g1" and i1: "i \<in> dom (nodes g1)"
    using ensure_node_props [OF wf] by (simp_all add: g1_def)
  have A1: "insert i A \<subseteq> dom (nodes g1)" using A i1 le_graph_dom [OF le1] by blast
  have r: "seq (do_ensure_node i n k m) s g = s g1"
    by (simp add: seq_def do_ensure_node_def g1_def)
  have "seq (do_ensure_node i n k m) s h = (fst (s g1), h)"
    if "well_formed h" "le_graph (snd (s g1)) h" for h
  proof -
    have "le_graph g1 h" using stableD(2) [OF s wf1 A1] that(2) by (rule le_graph_trans)
    then have "i \<in> dom (nodes h)" using i1 le_graph_dom by blast
    then have "seq (do_ensure_node i n k m) s h = s h"
      by (simp add: seq_def ensure_node_present)
    then show ?thesis using stableD(4) [OF s wf1 A1 that] by simp
  qed
  then show "well_formed (snd (seq (do_ensure_node i n k m) s g))
        \<and> le_graph g (snd (seq (do_ensure_node i n k m) s g))
        \<and> (\<forall>ka. fst (seq (do_ensure_node i n k m) s g) \<noteq> Some (KeyError ka))
        \<and> (\<forall>h. well_formed h \<and> le_graph (snd (seq (do_ensure_node i n k m) s g)) h
              \<longrightarrow> seq (do_ensure_node i n k m) s h = (fst (seq (do_ensure_node i n k m) s g), h))"
    using r stableD(1,3) [OF s wf1 A1] le_graph_trans [OF le1 stableD(2) [OF s wf1 A1]]
    by auto
qed

lemma add_edge_present:
  assumes "nodes g (source e) \<noteq> None" "nodes g (target e) \<noteq> None"
    and "out_edges g (source e) = Some outs" "in_edges g (target e) = Some ins"
  shows "add_edge e g = (Inr e, g\<lparr>out_edges := (out_edges g)(source e \<mapsto> insert e outs),
                                   in_edges := (in_edges g)(target e \<mapsto> insert e ins)\<rparr>)"
  using assms by (auto simp: add_edge_def Let_def)

lemma stable_connect:
  assumes "s \<in> A" "t \<in> A"
  shows "stable A (do_connect s t k m)"
proof (rule stableI)
  fix g assume wf: "well_formed g" and A: "A \<subseteq> dom (nodes g)"
  define e where "e = Edge_from_meta s t k m"
  have st: "source e = s" "target e = t" by (simp_all add: e_def Edge_from_meta_def)
  have ns: "nodes g s \<noteq> None" "nodes g t \<noteq> None" using assms A by auto
  have "s \<in> dom (out_edges g)" "t \<in> dom (in_edges g)"
    using wf ns by (auto simp: well_formed_def)
  then obtain outs ins where oi: "out_edges g s = Some outs" "in_edges g t = Some ins"
    by auto
  define g1 where "g1 = g\<lparr>out_edges := (out_edges g)(s \<mapsto> insert e outs),
                           in_edges := (in_edges g)(t \<mapsto> insert e ins)\<rparr>"
  have r: "do_connect s t k m g = (None, g1)"
    using add_edge_present [of g e outs ins] ns oi st
    by (simp add: do_connect_def connect_def e_def [symmetric] g1_def)
  have wf1: "well_formed g1"
    using wf by (auto simp: well_formed_def g1_def)
  have le1: "le_graph g g1"
    using oi by (auto simp: le_graph_def g1_def)
  have "do_connect s t k m h = (None, h)" if wfh: "well_formed h" and le: "le_graph g1 h" for h
  proof -
    have g1s: "out_edges g1 s = Some (insert e outs)" "in_edges g1 t = Some (insert e ins)"
      by (simp_all add: g1_def)
    have "\<exists>es'. out_edges h s = Some es' \<and> insert e outs \<subseteq> es'"
      using le g1s(1) unfolding le_graph_def by blast
    then obtain outs' where o': "out_edges h s = Some outs'" "e \<in> outs'" by auto
    have "\<exists>es'. in_edges h t = Some es' \<and> insert e ins \<subseteq> es'"
      using le g1s(2) unfolding le_graph_def by blast
    then obtain ins' where i': "in_edges h t = Some ins'" "e \<in> ins'" by auto
    have nh: "nodes h s \<noteq> None" "nodes h t \<noteq> None"
      using ns le_graph_dom [OF le_graph_trans [OF le1 le]] by auto
    have "add_edge e h = (Inr e, h\<lparr>out_edges := (out_edges h)(s \<mapsto> insert e outs'),
                                   in_edges := (in_edges h)(t \<mapsto> insert e ins')\<rparr>)"
      using add_edge_present [of h e outs' ins'] st nh o' i' by simp
    moreover have "(out_edges h)(s \<mapsto> insert e outs') = out_edges h"
      using o' by (auto simp: insert_absorb)
    moreover have "(in_edges h)(t \<mapsto> insert e ins') = in_edges h"
      using i' by (auto simp: insert_absorb)
    ultimately show ?thesis
      by (simp add: do_connect_def connect_def e_def [symmetric])
  qed
  then show "well_formed (snd (do_connect s t k m g)) \<and> le_graph g (snd (do_connect s t k m g))
        \<and> (\<forall>ka. fst (do_connect s t k m g) \<noteq> Some (KeyError ka))
        \<and> (\<forall>h. well_formed h \<and> le_graph (snd (do_connect s t k m g)) h
              \<longrightarrow> do_connect s t k m h = (fst (do_connect s t k m g), h))"
    using r wf1 le1 by simp
qed

lemma stable_ensure_connect:
  assumes "s \<in> insert t A"
  shows "stable A (seq (do_ensure_node t n k m) (do_connect s t k' m'))"
  by (rule stable_ensure_then) (rule stable_connect, use assms in auto)

lemma stable_ensure: "stable A (do_ensure_node i n k m)"
proof -
  have "stable A (seq (do_ensure_node i n k m) skip)"
    by (rule stable_ensure_then) (rule stable_skip)
  moreover have "seq (do_ensure_node i n k m) skip = do_ensure_node i n k m"
    by (auto simp: seq_def skip_def do_ensure_node_def fun_eq_iff)
  ultimately show ?thesis by simp
qed

lemma stable_import_line: "file_id \<in> A \<Longrightarrow> stable A (import_line file_id line)"
  unfolding import_line_def Let_def
  by (auto split: option.splits list.splits
      intro!: stable_skip stable_raise_IndexError stable_ensure_connect)

lemma stable_definition_line: "file_id \<in> A \<Longrightarrow> stable A (definition_line file_path file_id il)"
  unfolding definition_line_def Let_def
  by (auto split: option.splits
      intro!: stable_skip stable_ensure_then stable_connect)

lemma stable_variable_line: "file_id \<in> A \<Longrightarrow> stable A (variable_line file_path file_id il)"
  unfolding variable_line_def Let_def
  by (auto split: option.splits
      intro!: stable_skip stable_seq stable_ensure_connect)

lemma stable_call_match: "file_id \<in> A \<Longrightarrow> stable A (call_match file_id idx callee)"
  unfolding call_match_def Let_def
  by (auto intro!: stable_ensure_connect)

lemma stable_resource_match: "file_id \<in> A \<Longrightarrow> stable A (resource_match file_id idx line r)"
  unfolding resource_match_def Let_def
  by (auto intro!: stable_ensure_then stable_connect stable_skip)

lemma stable_call_resource_line: "file_id \<in> A \<Longrightarrow> stable A (call_resource_line file_id il)"
  unfolding call_resource_line_def Let_def
  by (auto intro!: stable_seq stable_for_each stable_call_match stable_resource_match)

lemma stable_extract: "stable {} (HeuristicExtractor_extract file_path t)"
  unfolding HeuristicExtractor_extract_def Let_def
  by (intro stable_ensure_then stable_seq stable_for_each stable_import_line
      stable_definition_line stable_variable_line stable_call_resource_line) auto

lemma extract_no_KeyError:
  "well_formed g \<Longrightarrow> fst (HeuristicExtractor_extract file_path t g) \<noteq> Some (KeyError k)"
  using stableD(3) [OF stable_extract] by simp

lemma well_formed_extract:
  "well_formed g \<Longrightarrow> well_formed (snd (HeuristicExtractor_extract file_path t g))"
  using stableD(1) [OF stable_extract] by simp

text \<open>
  C1. Extraction is idempotent. On every graph that the operations of \<^verbatim>\<open>Graph\<close> can
  build (every id of the node store is a key of both adjacency indexes), running
  \<^verbatim>\<open>extract\<close> a second time with the same path and text on the graph that the first run
  left ends as the first run did (it returns, or raises the same exception) and leaves the
  graph of the first run: the same node store, the same adjacency indexes, so the same set
  of nodes and the same set of edges. \<^verbatim>\<open>extract\<close> reads nothing but its arguments, so two
  runs from two fresh graphs build the same graph.
\<close>

theorem extract_idempotent:
  assumes "well_formed g"
  shows "HeuristicExtractor_extract file_path t (snd (HeuristicExtractor_extract file_path t g))
         = HeuristicExtractor_extract file_path t g
    \<and> nodes_of (snd (HeuristicExtractor_extract file_path t
          (snd (HeuristicExtractor_extract file_path t g))))
       = nodes_of (snd (HeuristicExtractor_extract file_path t g))
    \<and> edges_of (snd (HeuristicExtractor_extract file_path t
          (snd (HeuristicExtractor_extract file_path t g))))
       = edges_of (snd (HeuristicExtractor_extract file_path t g))"
proof -
  have "well_formed (snd (HeuristicExtractor_extract file_path t g))"
    using assms by (rule well_formed_extract)
  then have "HeuristicExtractor_extract file_path t (snd (HeuristicExtractor_extract file_path t g))
      = (fst (HeuristicExtractor_extract file_path t g), snd (HeuristicExtractor_extract file_path t g))"
    using stableD(4) [OF stable_extract assms _ _ le_graph_refl] by simp
  then show ?thesis by simp
qed

theorem extract_idempotent_witness:
  "well_formed Graph_init
   \<and> HeuristicExtractor_extract ''a.py'' ''class Dog extends Animal''
       (snd (HeuristicExtractor_extract ''a.py'' ''class Dog extends Animal'' Graph_init))
     = HeuristicExtractor_extract ''a.py'' ''class Dog extends Animal'' Graph_init"
  using well_formed_init
    extract_idempotent [OF well_formed_init, of "''a.py''" "''class Dog extends Animal''"]
  by simp

section \<open>What the extractor adds to the graph\<close>

lemma Union_ran_insert:
  assumes "m k = Some v"
  shows "\<Union> (ran (m(k \<mapsto> insert e v))) = insert e (\<Union> (ran m))"
proof (rule set_eqI)
  fix x
  have "x \<in> \<Union> (ran (m(k \<mapsto> insert e v)))
      \<longleftrightarrow> (\<exists>a X. (m(k \<mapsto> insert e v)) a = Some X \<and> x \<in> X)"
    by (auto simp: ran_def)
  also have "\<dots> \<longleftrightarrow> x \<in> insert e v \<or> (\<exists>a X. a \<noteq> k \<and> m a = Some X \<and> x \<in> X)"
    by (auto split: if_splits)
  also have "\<dots> \<longleftrightarrow> x = e \<or> (\<exists>a X. m a = Some X \<and> x \<in> X)"
    using assms by (metis insert_iff option.inject)
  also have "\<dots> \<longleftrightarrow> x \<in> insert e (\<Union> (ran m))"
    by (auto simp: ran_def)
  finally show "x \<in> \<Union> (ran (m(k \<mapsto> insert e v))) \<longleftrightarrow> x \<in> insert e (\<Union> (ran m))" .
qed

lemma Union_ran_setdefault_empty: "\<Union> (ran (setdefault_empty d k)) = \<Union> (ran d)"
proof (cases "d k")
  case None
  have "x \<in> \<Union> (ran (d(k \<mapsto> {}))) \<longleftrightarrow> x \<in> \<Union> (ran d)" for x
  proof -
    have "x \<in> \<Union> (ran (d(k \<mapsto> {})))
        \<longleftrightarrow> (\<exists>a X. (d(k \<mapsto> {})) a = Some X \<and> x \<in> X)"
      by (auto simp: ran_def)
    also have "\<dots> \<longleftrightarrow> (\<exists>a X. a \<noteq> k \<and> d a = Some X \<and> x \<in> X)"
      by (auto split: if_splits)
    also have "\<dots> \<longleftrightarrow> (\<exists>a X. d a = Some X \<and> x \<in> X)"
      using None by (metis option.distinct(1))
    also have "\<dots> \<longleftrightarrow> x \<in> \<Union> (ran d)"
      by (auto simp: ran_def)
    finally show ?thesis .
  qed
  then show ?thesis using None by (auto simp: setdefault_empty_def)
next
  case (Some v)
  then show ?thesis by (simp add: setdefault_empty_def)
qed

lemma seq_None: "fst (s1 g) = None \<Longrightarrow> seq s1 s2 g = s2 (snd (s1 g))"
  by (cases "s1 g") (simp add: seq_def)

lemma ensure_node_effect:
  "fst (do_ensure_node i n k m g) = None"
  "nodes (snd (do_ensure_node i n k m g))
     = (case nodes g i of None \<Rightarrow> (nodes g)(i \<mapsto> Node_from_meta i n k m) | Some x \<Rightarrow> nodes g)"
  "edges_of (snd (do_ensure_node i n k m g)) = edges_of g"
  by (auto simp: do_ensure_node_def ensure_node_def upsert_node_def Node_from_meta_def
      edges_of_def Union_ran_setdefault_empty split: option.splits)

lemma connect_effect:
  assumes "well_formed g" "s \<in> dom (nodes g)" "t \<in> dom (nodes g)"
  shows "fst (do_connect s t k m g) = None"
    and "well_formed (snd (do_connect s t k m g))"
    and "nodes (snd (do_connect s t k m g)) = nodes g"
    and "edges_of (snd (do_connect s t k m g)) = insert (Edge_from_meta s t k m) (edges_of g)"
proof -
  define e where "e = Edge_from_meta s t k m"
  have st: "source e = s" "target e = t" by (simp_all add: e_def Edge_from_meta_def)
  have ns: "nodes g s \<noteq> None" "nodes g t \<noteq> None" using assms by auto
  have "s \<in> dom (out_edges g)" "t \<in> dom (in_edges g)"
    using assms(1) ns by (auto simp: well_formed_def)
  then obtain outs ins where oi: "out_edges g s = Some outs" "in_edges g t = Some ins"
    by auto
  define g1 where "g1 = g\<lparr>out_edges := (out_edges g)(s \<mapsto> insert e outs),
                           in_edges := (in_edges g)(t \<mapsto> insert e ins)\<rparr>"
  have r: "do_connect s t k m g = (None, g1)"
    using add_edge_present [of g e outs ins] ns oi st
    by (simp add: do_connect_def connect_def e_def [symmetric] g1_def)
  show "fst (do_connect s t k m g) = None" using r by simp
  show "well_formed (snd (do_connect s t k m g))"
    using r assms(1) by (auto simp: well_formed_def g1_def)
  show "nodes (snd (do_connect s t k m g)) = nodes g" using r by (simp add: g1_def)
  show "edges_of (snd (do_connect s t k m g)) = insert (Edge_from_meta s t k m) (edges_of g)"
    using r oi(1) by (simp add: g1_def edges_of_def Union_ran_insert e_def)
qed

lemma ensure_connect_effect:
  assumes "well_formed g" "s \<in> dom (nodes g)"
  shows "fst (seq (do_ensure_node t n k m) (do_connect s t k' m') g) = None"
    and "well_formed (snd (seq (do_ensure_node t n k m) (do_connect s t k' m') g))"
    and "nodes (snd (seq (do_ensure_node t n k m) (do_connect s t k' m') g))
      = (case nodes g t of None \<Rightarrow> (nodes g)(t \<mapsto> Node_from_meta t n k m) | Some x \<Rightarrow> nodes g)"
    and "edges_of (snd (seq (do_ensure_node t n k m) (do_connect s t k' m') g))
      = insert (Edge_from_meta s t k' m') (edges_of g)"
proof -
  define g1 where "g1 = snd (do_ensure_node t n k m g)"
  have wf1: "well_formed g1"
    using well_formed_ensure_node [OF assms(1)] by (simp add: g1_def do_ensure_node_def)
  have n1: "nodes g1
     = (case nodes g t of None \<Rightarrow> (nodes g)(t \<mapsto> Node_from_meta t n k m) | Some x \<Rightarrow> nodes g)"
    by (simp add: g1_def ensure_node_effect)
  have e1: "edges_of g1 = edges_of g" by (simp add: g1_def ensure_node_effect)
  have s1: "s \<in> dom (nodes g1)" "t \<in> dom (nodes g1)"
    using assms(2) by (auto simp: n1 split: option.splits)
  have r: "seq (do_ensure_node t n k m) (do_connect s t k' m') g = do_connect s t k' m' g1"
    by (simp add: seq_None ensure_node_effect g1_def)
  show "fst (seq (do_ensure_node t n k m) (do_connect s t k' m') g) = None"
    using connect_effect(1) [OF wf1 s1] r by simp
  show "well_formed (snd (seq (do_ensure_node t n k m) (do_connect s t k' m') g))"
    using connect_effect(2) [OF wf1 s1] r by simp
  show "nodes (snd (seq (do_ensure_node t n k m) (do_connect s t k' m') g))
      = (case nodes g t of None \<Rightarrow> (nodes g)(t \<mapsto> Node_from_meta t n k m) | Some x \<Rightarrow> nodes g)"
    using connect_effect(3) [OF wf1 s1] r n1 by simp
  show "edges_of (snd (seq (do_ensure_node t n k m) (do_connect s t k' m') g))
      = insert (Edge_from_meta s t k' m') (edges_of g)"
    using connect_effect(4) [OF wf1 s1] r e1 by simp
qed

lemma for_each_effect:
  assumes body: "\<And>x g. x \<in> set xs \<Longrightarrow> well_formed g \<Longrightarrow> A \<subseteq> dom (nodes g) \<Longrightarrow>
        fst (body x g) = None \<and> well_formed (snd (body x g))
        \<and> nodes (snd (body x g))
            = (case nodes g (I x) of None \<Rightarrow> (nodes g)(I x \<mapsto> V x) | Some n \<Rightarrow> nodes g)
        \<and> edges_of (snd (body x g)) = edges_of g \<union> F x"
    and "well_formed g" and "A \<subseteq> dom (nodes g)"
  shows "fst (for_each xs body g) = None \<and> well_formed (snd (for_each xs body g))
        \<and> nodes (snd (for_each xs body g))
            = (\<lambda>k. case nodes g k of Some n \<Rightarrow> Some n
                    | None \<Rightarrow> map_of (map (\<lambda>x. (I x, V x)) xs) k)
        \<and> edges_of (snd (for_each xs body g)) = edges_of g \<union> \<Union> (F ` set xs)"
  using assms
proof (induction xs arbitrary: g)
  case Nil
  have "nodes g = (\<lambda>k. case nodes g k of Some n \<Rightarrow> Some n
                    | None \<Rightarrow> map_of (map (\<lambda>x. (I x, V x)) []) k)"
    by (auto simp: fun_eq_iff split: option.splits)
  then show ?case using Nil.prems(2) by (simp add: skip_def)
next
  case (Cons x xs)
  define g1 where "g1 = snd (body x g)"
  have b: "fst (body x g) = None" "well_formed g1"
    "nodes g1 = (case nodes g (I x) of None \<Rightarrow> (nodes g)(I x \<mapsto> V x) | Some n \<Rightarrow> nodes g)"
    "edges_of g1 = edges_of g \<union> F x"
    using Cons.prems(1) [of x g] Cons.prems(2,3) by (simp_all add: g1_def)
  have A1: "A \<subseteq> dom (nodes g1)"
    using Cons.prems(3) by (auto simp: b(3) split: option.splits)
  have r: "for_each (x # xs) body g = for_each xs body g1"
    using b(1) by (simp add: seq_None g1_def)
  have ih: "fst (for_each xs body g1) = None \<and> well_formed (snd (for_each xs body g1))
        \<and> nodes (snd (for_each xs body g1))
            = (\<lambda>k. case nodes g1 k of Some n \<Rightarrow> Some n
                    | None \<Rightarrow> map_of (map (\<lambda>x. (I x, V x)) xs) k)
        \<and> edges_of (snd (for_each xs body g1)) = edges_of g1 \<union> \<Union> (F ` set xs)"
    using Cons.IH [of g1] Cons.prems(1) b(2) A1 by simp
  have n: "(\<lambda>k. case nodes g1 k of Some n \<Rightarrow> Some n
                    | None \<Rightarrow> map_of (map (\<lambda>x. (I x, V x)) xs) k)
      = (\<lambda>k. case nodes g k of Some n \<Rightarrow> Some n
                    | None \<Rightarrow> map_of (map (\<lambda>x. (I x, V x)) (x # xs)) k)"
    by (auto simp: fun_eq_iff b(3) split: option.splits)
  show ?case using ih by (simp only: r n b(4)) auto
qed

lemma map_of_inj_key:
  assumes "r \<in> set xs" and "\<And>x y. I x = I y \<Longrightarrow> x = y"
  shows "map_of (map (\<lambda>x. (I x, V x)) xs) (I r) = Some (V r)"
  using assms(1) by (induction xs) (auto dest: assms(2))

lemma map_of_no_key:
  assumes "\<And>x. k \<noteq> I x"
  shows "map_of (map (\<lambda>x. (I x, V x)) xs) k = None"
  by (induction xs) (simp_all add: assms)

lemma seq_skip_effect:
  "seq s skip g = s g"
  by (cases "s g") (auto simp: seq_def skip_def split: option.splits)

lemma call_match_effect:
  assumes "well_formed g" "file_id \<in> dom (nodes g)"
  shows "fst (call_match file_id idx callee g) = None
    \<and> well_formed (snd (call_match file_id idx callee g))
    \<and> nodes (snd (call_match file_id idx callee g))
        = (case nodes g (''symbol:any:'' @ callee) of
             None \<Rightarrow> (nodes g)(''symbol:any:'' @ callee
                        \<mapsto> Node_from_meta (''symbol:any:'' @ callee) callee FUNCTION None)
           | Some n \<Rightarrow> nodes g)
    \<and> edges_of (snd (call_match file_id idx callee g))
        = edges_of g \<union> {Edge_from_meta file_id (''symbol:any:'' @ callee) CALLS
                           (Some [(''line'', str_nat idx)])}"
  unfolding call_match_def Let_def
  using ensure_connect_effect [OF assms] by (simp del: append.simps)

lemma resource_match_effect:
  assumes "well_formed g" "file_id \<in> dom (nodes g)"
  shows "fst (resource_match file_id idx line r g) = None
    \<and> well_formed (snd (resource_match file_id idx line r g))
    \<and> nodes (snd (resource_match file_id idx line r g))
        = (case nodes g (''resource:'' @ r) of
             None \<Rightarrow> (nodes g)(''resource:'' @ r
                        \<mapsto> Node_from_meta (''resource:'' @ r) r RESOURCE None)
           | Some n \<Rightarrow> nodes g)
    \<and> edges_of (snd (resource_match file_id idx line r g))
        = edges_of g \<union> verb_edges file_id idx line r"
proof -
  consider (w) "leading_verb line \<in> WRITE_VERBS"
    | (r) "leading_verb line \<notin> WRITE_VERBS" "leading_verb line \<in> READ_VERBS"
    | (n) "leading_verb line \<notin> WRITE_VERBS" "leading_verb line \<notin> READ_VERBS"
    by blast
  then show ?thesis
  proof cases
    case w
    then show ?thesis
      unfolding resource_match_def Let_def verb_edges_def
      using ensure_connect_effect [OF assms] by (simp del: append.simps)
  next
    case r
    then show ?thesis
      unfolding resource_match_def Let_def verb_edges_def
      using ensure_connect_effect [OF assms] by (simp del: append.simps)
  next
    case n
    have "well_formed (snd (do_ensure_node (''resource:'' @ r) r RESOURCE None g))"
      using well_formed_ensure_node [OF assms(1)] by (simp add: do_ensure_node_def)
    then show ?thesis
      unfolding resource_match_def Let_def verb_edges_def
      using n by (simp add: seq_skip_effect ensure_node_effect del: append.simps)
  qed
qed

lemma call_resource_line_effect:
  assumes "well_formed g" "file_id \<in> dom (nodes g)"
  shows "fst (call_resource_line file_id (idx, line) g) = None
    \<and> well_formed (snd (call_resource_line file_id (idx, line) g))
    \<and> nodes (snd (call_resource_line file_id (idx, line) g))
        = (\<lambda>k. case nodes g k of Some n \<Rightarrow> Some n
            | None \<Rightarrow>
               (case map_of (map (\<lambda>c. (''symbol:any:'' @ c,
                        Node_from_meta (''symbol:any:'' @ c) c FUNCTION None))
                      (re_finditer CALL_PATTERN line)) k of
                  Some n \<Rightarrow> Some n
                | None \<Rightarrow> map_of (map (\<lambda>r. (''resource:'' @ r,
                        Node_from_meta (''resource:'' @ r) r RESOURCE None))
                      (re_finditer RESOURCE_PATTERN line)) k))
    \<and> edges_of (snd (call_resource_line file_id (idx, line) g))
        = edges_of g
          \<union> (\<Union>c\<in>set (re_finditer CALL_PATTERN line).
               {Edge_from_meta file_id (''symbol:any:'' @ c) CALLS (Some [(''line'', str_nat idx)])})
          \<union> (\<Union>r\<in>set (re_finditer RESOURCE_PATTERN line). verb_edges file_id idx line r)"
proof -
  define g1 where "g1 = snd (for_each (re_finditer CALL_PATTERN line) (call_match file_id idx) g)"
  have c: "fst (for_each (re_finditer CALL_PATTERN line) (call_match file_id idx) g) = None
    \<and> well_formed g1
    \<and> nodes g1 = (\<lambda>k. case nodes g k of Some n \<Rightarrow> Some n
            | None \<Rightarrow> map_of (map (\<lambda>c. (''symbol:any:'' @ c,
                        Node_from_meta (''symbol:any:'' @ c) c FUNCTION None))
                      (re_finditer CALL_PATTERN line)) k)
    \<and> edges_of g1 = edges_of g
          \<union> (\<Union>c\<in>set (re_finditer CALL_PATTERN line).
               {Edge_from_meta file_id (''symbol:any:'' @ c) CALLS (Some [(''line'', str_nat idx)])})"
    unfolding g1_def
    by (rule for_each_effect [where A = "{file_id}"])
      (use assms call_match_effect in \<open>simp_all del: append.simps\<close>)
  have f1: "file_id \<in> dom (nodes g1)"
    using assms(2) c by (auto split: option.splits)
  have r: "fst (for_each (re_finditer RESOURCE_PATTERN line) (resource_match file_id idx line) g1) = None
    \<and> well_formed (snd (for_each (re_finditer RESOURCE_PATTERN line) (resource_match file_id idx line) g1))
    \<and> nodes (snd (for_each (re_finditer RESOURCE_PATTERN line) (resource_match file_id idx line) g1))
       = (\<lambda>k. case nodes g1 k of Some n \<Rightarrow> Some n
            | None \<Rightarrow> map_of (map (\<lambda>r. (''resource:'' @ r,
                        Node_from_meta (''resource:'' @ r) r RESOURCE None))
                      (re_finditer RESOURCE_PATTERN line)) k)
    \<and> edges_of (snd (for_each (re_finditer RESOURCE_PATTERN line) (resource_match file_id idx line) g1))
       = edges_of g1
          \<union> (\<Union>r\<in>set (re_finditer RESOURCE_PATTERN line). verb_edges file_id idx line r)"
    by (rule for_each_effect [where A = "{file_id}"])
      (use c f1 resource_match_effect in \<open>simp_all del: append.simps\<close>)
  have e: "call_resource_line file_id (idx, line) g
     = for_each (re_finditer RESOURCE_PATTERN line) (resource_match file_id idx line) g1"
    using c by (simp add: call_resource_line_def seq_None g1_def)
  have n: "(\<lambda>k. case nodes g1 k of Some n \<Rightarrow> Some n
            | None \<Rightarrow> map_of (map (\<lambda>r. (''resource:'' @ r,
                        Node_from_meta (''resource:'' @ r) r RESOURCE None))
                      (re_finditer RESOURCE_PATTERN line)) k)
     = (\<lambda>k. case nodes g k of Some n \<Rightarrow> Some n
            | None \<Rightarrow>
               (case map_of (map (\<lambda>c. (''symbol:any:'' @ c,
                        Node_from_meta (''symbol:any:'' @ c) c FUNCTION None))
                      (re_finditer CALL_PATTERN line)) k of
                  Some n \<Rightarrow> Some n
                | None \<Rightarrow> map_of (map (\<lambda>r. (''resource:'' @ r,
                        Node_from_meta (''resource:'' @ r) r RESOURCE None))
                      (re_finditer RESOURCE_PATTERN line)) k))"
    using c by (auto simp: fun_eq_iff simp del: append.simps split: option.splits)
  show ?thesis
    unfolding e
  proof (intro conjI)
    show "fst (for_each (re_finditer RESOURCE_PATTERN line) (resource_match file_id idx line) g1)
        = None"
      by (rule r [THEN conjunct1])
    show "well_formed
        (snd (for_each (re_finditer RESOURCE_PATTERN line) (resource_match file_id idx line) g1))"
      by (rule r [THEN conjunct2, THEN conjunct1])
    show "nodes (snd (for_each (re_finditer RESOURCE_PATTERN line) (resource_match file_id idx line) g1))
        = (\<lambda>k. case nodes g k of Some n \<Rightarrow> Some n
            | None \<Rightarrow>
               (case map_of (map (\<lambda>c. (''symbol:any:'' @ c,
                        Node_from_meta (''symbol:any:'' @ c) c FUNCTION None))
                      (re_finditer CALL_PATTERN line)) k of
                  Some n \<Rightarrow> Some n
                | None \<Rightarrow> map_of (map (\<lambda>r. (''resource:'' @ r,
                        Node_from_meta (''resource:'' @ r) r RESOURCE None))
                      (re_finditer RESOURCE_PATTERN line)) k))"
      by (rule trans [OF r [THEN conjunct2, THEN conjunct2, THEN conjunct1] n])
    show "edges_of (snd (for_each (re_finditer RESOURCE_PATTERN line) (resource_match file_id idx line) g1))
        = edges_of g
          \<union> (\<Union>c\<in>set (re_finditer CALL_PATTERN line).
               {Edge_from_meta file_id (''symbol:any:'' @ c) CALLS (Some [(''line'', str_nat idx)])})
          \<union> (\<Union>r\<in>set (re_finditer RESOURCE_PATTERN line). verb_edges file_id idx line r)"
      by (simp only: r [THEN conjunct2, THEN conjunct2, THEN conjunct2]
          c [THEN conjunct2, THEN conjunct2, THEN conjunct2])
  qed
qed

lemma edges_of_init: "edges_of Graph_init = {}"
  by (simp add: edges_of_def Graph_init_def)

lemma verbs_disjoint: "v \<in> READ_VERBS \<Longrightarrow> v \<notin> WRITE_VERBS"
  by (auto simp: WRITE_VERBS_def READ_VERBS_def)

text \<open>
  C8, as stated, fails: the verb that \<^verbatim>\<open>extract\<close> compares with the two sets is not the
  text before the first parenthesis of the line, lower-cased, but the first word of that
  text, the line being stripped first. On the line \<^verbatim>\<open>save data("https://x/y")\<close> the text
  before the first parenthesis is \<^verbatim>\<open>save data\<close>, a member of neither set, and \<^verbatim>\<open>extract\<close>
  adds a WRITES edge from the file to the resource.
\<close>

theorem leading_token_counterexample:
  \<open>spec_leading_token ''save data("https://x/y")'' = ''save data''
   \<and> ''save data'' \<notin> WRITE_VERBS
   \<and> re_finditer RESOURCE_PATTERN ''save data("https://x/y")'' = [''https://x/y'']
   \<and> fst (HeuristicExtractor_extract ''a.py'' ''save data("https://x/y")'' Graph_init) = None
   \<and> out_edges
        (snd (HeuristicExtractor_extract ''a.py'' ''save data("https://x/y")'' Graph_init))
        ''file:a.py''
     = Some {\<lparr>source = ''file:a.py'', target = ''resource:https://x/y'',
               edge_kind = WRITES, edge_meta = [(''line'', ''1'')]\<rparr>,
             \<lparr>source = ''file:a.py'', target = ''symbol:any:data'', edge_kind = CALLS,
               edge_meta = [(''line'', ''1'')]\<rparr>}\<close>
  by code_simp

text \<open>
  C8, amended. The pass over the calls and resources of a line, run on a graph that holds
  the file node, returns, and for every resource literal found in the line the resource
  node is in the graph afterwards (created as a resource node if it was not there). The
  pass adds the WRITES edge from the file node to the resource node if and only if the
  first word of the stripped line's text before its first parenthesis, lower-cased
  (\<open>leading_verb\<close>), is a write verb, and the READS edge if and only if it is a read verb;
  when it is neither, the node is created and no such edge is added.
\<close>

theorem resource_verb_edges:
  assumes "well_formed g" and "file_id \<in> dom (nodes g)"
    and "resource \<in> set (re_finditer RESOURCE_PATTERN line)"
  shows "fst (call_resource_line file_id (idx, line) g) = None
    \<and> ''resource:'' @ resource \<in> dom (nodes (snd (call_resource_line file_id (idx, line) g)))
    \<and> (nodes g (''resource:'' @ resource) = None \<longrightarrow>
         nodes (snd (call_resource_line file_id (idx, line) g)) (''resource:'' @ resource)
         = Some (Node_from_meta (''resource:'' @ resource) resource RESOURCE None))
    \<and> (Edge_from_meta file_id (''resource:'' @ resource) WRITES (Some [(''line'', str_nat idx)])
          \<in> edges_of (snd (call_resource_line file_id (idx, line) g))
        \<longleftrightarrow> leading_verb line \<in> WRITE_VERBS
          \<or> Edge_from_meta file_id (''resource:'' @ resource) WRITES
               (Some [(''line'', str_nat idx)]) \<in> edges_of g)
    \<and> (Edge_from_meta file_id (''resource:'' @ resource) READS (Some [(''line'', str_nat idx)])
          \<in> edges_of (snd (call_resource_line file_id (idx, line) g))
        \<longleftrightarrow> leading_verb line \<in> READ_VERBS
          \<or> Edge_from_meta file_id (''resource:'' @ resource) READS
               (Some [(''line'', str_nat idx)]) \<in> edges_of g)"
proof -
  note eff = call_resource_line_effect [OF assms(1,2), of idx line]
  define g' where "g' = snd (call_resource_line file_id (idx, line) g)"
  define rid where "rid = ''resource:'' @ resource"
  have m1: "map_of (map (\<lambda>c. (''symbol:any:'' @ c,
                Node_from_meta (''symbol:any:'' @ c) c FUNCTION None))
              (re_finditer CALL_PATTERN line)) rid = None"
    by (rule map_of_no_key) (simp add: rid_def)
  have m2: "map_of (map (\<lambda>r. (''resource:'' @ r,
                Node_from_meta (''resource:'' @ r) r RESOURCE None))
              (re_finditer RESOURCE_PATTERN line)) rid
      = Some (Node_from_meta rid resource RESOURCE None)"
    unfolding rid_def using assms(3) by (rule map_of_inj_key) simp
  have n: "nodes g' rid = (case nodes g rid of Some n \<Rightarrow> Some n
      | None \<Rightarrow> Some (Node_from_meta rid resource RESOURCE None))"
  proof -
    have nn: "nodes g' = (\<lambda>k. case nodes g k of Some n \<Rightarrow> Some n
            | None \<Rightarrow>
               (case map_of (map (\<lambda>c. (''symbol:any:'' @ c,
                        Node_from_meta (''symbol:any:'' @ c) c FUNCTION None))
                      (re_finditer CALL_PATTERN line)) k of
                  Some n \<Rightarrow> Some n
                | None \<Rightarrow> map_of (map (\<lambda>r. (''resource:'' @ r,
                        Node_from_meta (''resource:'' @ r) r RESOURCE None))
                      (re_finditer RESOURCE_PATTERN line)) k))"
      unfolding g'_def by (rule eff [THEN conjunct2, THEN conjunct2, THEN conjunct1])
    show ?thesis
      by (cases "nodes g rid") (simp_all add: nn m1 m2 del: append.simps)
  qed
  have e: "edges_of g' = edges_of g
      \<union> (\<Union>c\<in>set (re_finditer CALL_PATTERN line).
           {Edge_from_meta file_id (''symbol:any:'' @ c) CALLS (Some [(''line'', str_nat idx)])})
      \<union> (\<Union>r\<in>set (re_finditer RESOURCE_PATTERN line). verb_edges file_id idx line r)"
    using eff by (simp add: g'_def del: append.simps)
  have w: "Edge_from_meta file_id rid WRITES (Some [(''line'', str_nat idx)]) \<in> edges_of g'
      \<longleftrightarrow> leading_verb line \<in> WRITE_VERBS
          \<or> Edge_from_meta file_id rid WRITES (Some [(''line'', str_nat idx)]) \<in> edges_of g"
    unfolding e using assms(3)
    by (auto simp: verb_edges_def Edge_from_meta_def rid_def split: if_splits)
  have r: "Edge_from_meta file_id rid READS (Some [(''line'', str_nat idx)]) \<in> edges_of g'
      \<longleftrightarrow> leading_verb line \<in> READ_VERBS
          \<or> Edge_from_meta file_id rid READS (Some [(''line'', str_nat idx)]) \<in> edges_of g"
    unfolding e using assms(3) verbs_disjoint [of "leading_verb line"]
    by (auto simp: verb_edges_def Edge_from_meta_def rid_def split: if_splits)
  have d: "rid \<in> dom (nodes g')"
    using n by (auto split: option.splits)
  have f: "fst (call_resource_line file_id (idx, line) g) = None"
    using eff by blast
  show ?thesis
    using f d n w r unfolding g'_def rid_def by (simp del: append.simps)
qed

theorem resource_verb_edges_witness:
  \<open>leading_verb ''save data("https://x/y")'' = ''save''
   \<and> Edge_from_meta ''file:a.py'' ''resource:https://x/y'' WRITES (Some [(''line'', ''1'')])
       \<in> edges_of (snd (call_resource_line ''file:a.py'' (1, ''save data("https://x/y")'')
             (snd (do_ensure_node ''file:a.py'' ''a.py'' FILE (Some [(''path'', ''a.py'')])
                Graph_init))))
   \<and> Edge_from_meta ''file:a.py'' ''resource:https://x/y'' READS (Some [(''line'', ''1'')])
       \<notin> edges_of (snd (call_resource_line ''file:a.py'' (1, ''save data("https://x/y")'')
             (snd (do_ensure_node ''file:a.py'' ''a.py'' FILE (Some [(''path'', ''a.py'')])
                Graph_init))))\<close>
proof -
  let ?g = "snd (do_ensure_node ''file:a.py'' ''a.py'' FILE (Some [(''path'', ''a.py'')])
                Graph_init)"
  have a: "well_formed ?g"
    using well_formed_ensure_node [OF well_formed_init] by (simp add: do_ensure_node_def)
  have b: "''file:a.py'' \<in> dom (nodes ?g)"
    by (simp add: ensure_node_effect Graph_init_def)
  have c: \<open>''https://x/y'' \<in> set (re_finditer RESOURCE_PATTERN ''save data("https://x/y")'')\<close>
    by code_simp
  have v: \<open>leading_verb ''save data("https://x/y")'' = ''save''\<close>
    by code_simp
  have e0: "edges_of ?g = {}"
    by (simp add: ensure_node_effect edges_of_init)
  show ?thesis
    using resource_verb_edges [OF a b c, of 1] v e0
    by (simp add: WRITE_VERBS_def READ_VERBS_def str_nat_Suc_0)
qed

subsection \<open>The line \<^verbatim>\<open>download("https://x/y")\<close>\<close>

lemma seq_skip_left: "seq skip s = s"
  by (auto simp: seq_def skip_def fun_eq_iff)

lemma seq_skip_right: "seq s skip = s"
  by (auto simp: seq_def skip_def fun_eq_iff split: prod.splits option.splits)

lemma dl_lines: \<open>splitlines ''download("https://x/y")'' = [''download("https://x/y")'']\<close>
  by code_simp

lemma dl_import: \<open>first_match IMPORT_PATTERNS ''download("https://x/y")'' = None\<close>
  by code_simp

lemma dl_class: \<open>first_match CLASS_DEF_PATTERNS ''download("https://x/y")'' = None\<close>
  by code_simp

lemma dl_function:
  \<open>first_match FUNCTION_DEF_PATTERNS ''download("https://x/y")'' = Some ''download''\<close>
  by code_simp

lemma dl_const: \<open>first_match CONST_PATTERNS ''download("https://x/y")'' = None\<close>
  by code_simp

lemma dl_var: \<open>first_match VAR_PATTERNS ''download("https://x/y")'' = None\<close>
  by code_simp

lemma dl_calls: \<open>re_finditer CALL_PATTERN ''download("https://x/y")'' = [''download'']\<close>
  by code_simp

lemma dl_resources:
  \<open>re_finditer RESOURCE_PATTERN ''download("https://x/y")'' = [''https://x/y'']\<close>
  by code_simp

lemma dl_import_pass:
  \<open>for_each (splitlines ''download("https://x/y")'') (import_line file_id) = skip\<close>
  by (simp only: dl_lines for_each.simps import_line_def dl_import option.case seq_skip_left)

lemma dl_definition_pass:
  \<open>for_each (enumerate 1 (splitlines ''download("https://x/y")''))
      (definition_line file_path file_id)
    = seq (do_ensure_node (node_id_for_symbol file_path ''download'') ''download'' FUNCTION
             (Some [(''line'', ''1''), (''file'', file_path)]))
          (do_connect file_id (node_id_for_symbol file_path ''download'') CONTAINS None)\<close>
  by (simp only: dl_lines enumerate_simps for_each.simps definition_line_def Let_def fst_conv
      snd_conv dl_class dl_function option.case seq_skip_right str_nat_1)

lemma dl_variable_pass:
  \<open>for_each (enumerate 1 (splitlines ''download("https://x/y")''))
      (variable_line file_path file_id) = skip\<close>
  by (simp only: dl_lines enumerate_simps for_each.simps variable_line_def Let_def fst_conv
      snd_conv dl_const dl_var option.case seq_skip_right)

lemma dl_call_pass:
  \<open>for_each (enumerate 1 (splitlines ''download("https://x/y")'')) (call_resource_line file_id)
    = call_resource_line file_id (1, ''download("https://x/y")'')\<close>
  by (simp only: dl_lines enumerate_simps for_each.simps seq_skip_right)

lemma dl_extract:
  \<open>HeuristicExtractor_extract file_path ''download("https://x/y")''
    = seq (do_ensure_node (node_id_for_file file_path) (basename file_path) FILE
             (Some [(''path'', file_path)]))
       (seq (seq (do_ensure_node (node_id_for_symbol file_path ''download'') ''download''
                    FUNCTION (Some [(''line'', ''1''), (''file'', file_path)]))
                 (do_connect (node_id_for_file file_path)
                    (node_id_for_symbol file_path ''download'') CONTAINS None))
            (call_resource_line (node_id_for_file file_path) (1, ''download("https://x/y")'')))\<close>
  unfolding HeuristicExtractor_extract_def Let_def
  by (simp only: dl_import_pass dl_definition_pass dl_variable_pass dl_call_pass
      seq_skip_left)

lemma dl_verb: \<open>leading_verb ''download("https://x/y")'' = ''download''\<close>
  by code_simp

text \<open>
  C7. For any file path, extracting the one line \<^verbatim>\<open>download("https://x/y")\<close> into a fresh
  graph returns, and the graph then holds the file node, the resource node
  \<^verbatim>\<open>resource:https://x/y\<close>, a READS edge from the file node to the resource node, a
  function node under the id \<^verbatim>\<open>symbol:any:download\<close> and a CALLS edge from the file node to
  it.
\<close>

theorem download_scenario:
  \<open>fst (HeuristicExtractor_extract file_path ''download("https://x/y")'' Graph_init) = None
   \<and> nodes (snd (HeuristicExtractor_extract file_path ''download("https://x/y")'' Graph_init))
        (''file:'' @ file_path)
      = Some \<lparr>node_id = ''file:'' @ file_path, node_name = basename file_path,
               node_kind = FILE, node_meta = [(''path'', file_path)]\<rparr>
   \<and> nodes (snd (HeuristicExtractor_extract file_path ''download("https://x/y")'' Graph_init))
        ''resource:https://x/y''
      = Some \<lparr>node_id = ''resource:https://x/y'', node_name = ''https://x/y'',
               node_kind = RESOURCE, node_meta = []\<rparr>
   \<and> \<lparr>source = ''file:'' @ file_path, target = ''resource:https://x/y'', edge_kind = READS,
        edge_meta = [(''line'', ''1'')]\<rparr>
      \<in> edges_of (snd (HeuristicExtractor_extract file_path ''download("https://x/y")''
            Graph_init))
   \<and> (\<exists>n. nodes (snd (HeuristicExtractor_extract file_path ''download("https://x/y")''
              Graph_init)) ''symbol:any:download'' = Some n
          \<and> node_id n = ''symbol:any:download'' \<and> node_name n = ''download''
          \<and> node_kind n = FUNCTION)
   \<and> \<lparr>source = ''file:'' @ file_path, target = ''symbol:any:download'', edge_kind = CALLS,
        edge_meta = [(''line'', ''1'')]\<rparr>
      \<in> edges_of (snd (HeuristicExtractor_extract file_path ''download("https://x/y")''
            Graph_init))\<close>
proof -
  define fid where "fid = node_id_for_file file_path"
  define sfp where "sfp = node_id_for_symbol file_path ''download''"
  define n0 where "n0 = Node_from_meta fid (basename file_path) FILE (Some [(''path'', file_path)])"
  define nf where "nf = Node_from_meta sfp ''download'' FUNCTION
    (Some [(''line'', ''1''), (''file'', file_path)])"
  define g1 where "g1 = snd (do_ensure_node fid (basename file_path) FILE
    (Some [(''path'', file_path)]) Graph_init)"
  define g2 where "g2 = snd (seq (do_ensure_node sfp ''download'' FUNCTION
      (Some [(''line'', ''1''), (''file'', file_path)])) (do_connect fid sfp CONTAINS None) g1)"
  define g3 where \<open>g3 = snd (call_resource_line fid (1, ''download("https://x/y")'') g2)\<close>
  have ne: "''resource:https://x/y'' \<noteq> fid" "''resource:https://x/y'' \<noteq> sfp"
    "''symbol:any:download'' \<noteq> fid" "sfp \<noteq> fid"
    by (simp_all add: fid_def sfp_def node_id_for_file_def node_id_for_symbol_def)
  have wf1: "well_formed g1"
    using well_formed_ensure_node [OF well_formed_init] by (simp add: g1_def do_ensure_node_def)
  have n1: "nodes g1 = [fid \<mapsto> n0]"
    by (simp add: g1_def ensure_node_effect Graph_init_def n0_def)
  have e1: "edges_of g1 = {}"
    by (simp add: g1_def ensure_node_effect edges_of_init)
  have f1: "fid \<in> dom (nodes g1)" by (simp add: n1)
  note ec = ensure_connect_effect [OF wf1 f1, of sfp "''download''" FUNCTION
      "Some [(''line'', ''1''), (''file'', file_path)]" CONTAINS None, folded g2_def]
  have wf2: "well_formed g2" by (rule ec(2))
  have n2: "nodes g2 = [fid \<mapsto> n0, sfp \<mapsto> nf]"
    using ne(4) by (simp add: ec(3) n1 nf_def)
  have f2: "fid \<in> dom (nodes g2)" using ne(4) by (simp add: n2)
  note cr = call_resource_line_effect [OF wf2 f2, of 1 \<open>''download("https://x/y")''\<close>,
      folded g3_def]
  have r3: \<open>fst (call_resource_line fid (1, ''download("https://x/y")'') g2) = None\<close>
    by (rule cr [THEN conjunct1])
  have n3: "nodes g3 = (\<lambda>k. case nodes g2 k of Some n \<Rightarrow> Some n
            | None \<Rightarrow>
               (case map_of [(''symbol:any:download'',
                     Node_from_meta ''symbol:any:download'' ''download'' FUNCTION None)] k of
                  Some n \<Rightarrow> Some n
                | None \<Rightarrow> map_of [(''resource:https://x/y'',
                     Node_from_meta ''resource:https://x/y'' ''https://x/y'' RESOURCE None)] k))"
    using cr [THEN conjunct2, THEN conjunct2, THEN conjunct1]
    by (simp add: dl_calls dl_resources cong: option.case_cong)
  have e3: "edges_of g3 = edges_of g2
      \<union> {Edge_from_meta fid ''symbol:any:download'' CALLS (Some [(''line'', ''1'')])}
      \<union> {Edge_from_meta fid ''resource:https://x/y'' READS (Some [(''line'', ''1'')])}"
    using cr [THEN conjunct2, THEN conjunct2, THEN conjunct2]
    by (simp add: dl_calls dl_resources verb_edges_def dl_verb str_nat_Suc_0 READ_VERBS_def
        WRITE_VERBS_def)
  have ex: \<open>HeuristicExtractor_extract file_path ''download("https://x/y")'' Graph_init
      = call_resource_line fid (1, ''download("https://x/y")'') g2\<close>
  proof -
    have "HeuristicExtractor_extract file_path ''download(\"https://x/y\")'' Graph_init
      = seq (seq (do_ensure_node sfp ''download'' FUNCTION
                    (Some [(''line'', ''1''), (''file'', file_path)]))
                 (do_connect fid sfp CONTAINS None))
            (call_resource_line fid (1, ''download(\"https://x/y\")'')) g1"
      unfolding dl_extract g1_def fid_def sfp_def
      by (rule seq_None) (rule ensure_node_effect(1))
    also have "\<dots> = call_resource_line fid (1, ''download(\"https://x/y\")'') g2"
      unfolding g2_def by (rule seq_None) (rule ec(1))
    finally show ?thesis .
  qed
  have a: \<open>fst (HeuristicExtractor_extract file_path ''download("https://x/y")'' Graph_init)
      = None\<close>
    by (simp only: ex r3)
  have g: \<open>snd (HeuristicExtractor_extract file_path ''download("https://x/y")'' Graph_init)
      = g3\<close>
    by (simp only: ex g3_def)
  note ne' = ne ne [symmetric]
  have b: "nodes g3 fid = Some n0"
    using ne' by (simp add: n3 n2)
  have c: "nodes g3 ''resource:https://x/y''
      = Some (Node_from_meta ''resource:https://x/y'' ''https://x/y'' RESOURCE None)"
    using ne' by (simp add: n3 n2)
  have d: "\<exists>n. nodes g3 ''symbol:any:download'' = Some n
          \<and> node_id n = ''symbol:any:download'' \<and> node_name n = ''download''
          \<and> node_kind n = FUNCTION"
  proof (cases "sfp = ''symbol:any:download''")
    case True
    then have "nodes g3 ''symbol:any:download'' = Some nf"
      using ne' by (simp add: n3 n2)
    then show ?thesis using True by (simp add: nf_def Node_from_meta_def)
  next
    case False
    then have "nodes g3 ''symbol:any:download''
        = Some (Node_from_meta ''symbol:any:download'' ''download'' FUNCTION None)"
      using ne' by (simp add: n3 n2)
    then show ?thesis by (simp add: Node_from_meta_def)
  qed
  have e: "Edge_from_meta fid ''resource:https://x/y'' READS (Some [(''line'', ''1'')])
      \<in> edges_of g3"
    "Edge_from_meta fid ''symbol:any:download'' CALLS (Some [(''line'', ''1'')]) \<in> edges_of g3"
    by (simp_all add: e3)
  show ?thesis
    unfolding g
    using a b c d e
    by (simp add: fid_def node_id_for_file_def n0_def Node_from_meta_def Edge_from_meta_def
        sorted_items_def)
qed

section \<open>Properties of the scanner and the extractor\<close>

subsection \<open>What a statement can raise\<close>
















subsection \<open>The scan\<close>



















text \<open>
  C9. The extension of the path is lower-cased, the entries of the allowlist are kept as
  given: an allowlist with an upper-case entry admits neither \<^verbatim>\<open>main.ext\<close> nor
  \<^verbatim>\<open>MAIN.EXT\<close>, while a lower-case entry admits \<^verbatim>\<open>MAIN.EXT\<close>.
\<close>

theorem allowlist_not_lowered:
  "should_include_file (Scanner_init None (Some [''.EXT'']) None) fs ''main.ext'' = False
   \<and> should_include_file (Scanner_init None (Some [''.EXT'']) None) fs ''MAIN.EXT'' = False
   \<and> should_include_file (Scanner_init None (Some [''.ext'']) None) fs ''MAIN.EXT'' = True"
  by code_simp

text \<open>
  C10. On a line that opens a multi-line import, nothing is left of the import target once
  the punctuation is stripped, and \<^verbatim>\<open>extract\<close> raises an \<^verbatim>\<open>IndexError\<close>.
\<close>

theorem extract_raises_on_empty_import_target:
  "fst (HeuristicExtractor_extract ''a.js'' ''import {'' Graph_init)
     = Some (IndexError ''list index out of range'')"
  by code_simp

text \<open>
  C6. For the file \<^verbatim>\<open>a.py\<close>, the line \<^verbatim>\<open>class Dog extends Animal\<close> gives, on an empty
  graph, the class node \<^verbatim>\<open>symbol:a.py:Dog\<close>, the type node \<^verbatim>\<open>type:Animal\<close> and one
  EXTENDS edge from the first to the second, in both adjacency indexes.
\<close>

theorem class_extends_scenario:
  "fst (HeuristicExtractor_extract ''a.py'' ''class Dog extends Animal'' Graph_init) = None
   \<and> nodes (snd (HeuristicExtractor_extract ''a.py'' ''class Dog extends Animal'' Graph_init))
        ''symbol:a.py:Dog''
      = Some \<lparr>node_id = ''symbol:a.py:Dog'', node_name = ''Dog'', node_kind = CLASS,
               node_meta = [(''file'', ''a.py''), (''line'', ''1'')]\<rparr>
   \<and> nodes (snd (HeuristicExtractor_extract ''a.py'' ''class Dog extends Animal'' Graph_init))
        ''type:Animal''
      = Some \<lparr>node_id = ''type:Animal'', node_name = ''Animal'', node_kind = TYPE_kind,
               node_meta = []\<rparr>
   \<and> out_edges (snd (HeuristicExtractor_extract ''a.py'' ''class Dog extends Animal'' Graph_init))
        ''symbol:a.py:Dog''
      = Some {\<lparr>source = ''symbol:a.py:Dog'', target = ''type:Animal'', edge_kind = EXTENDS,
                edge_meta = [(''line'', ''1'')]\<rparr>}
   \<and> in_edges (snd (HeuristicExtractor_extract ''a.py'' ''class Dog extends Animal'' Graph_init))
        ''type:Animal''
      = Some {\<lparr>source = ''symbol:a.py:Dog'', target = ''type:Animal'', edge_kind = EXTENDS,
                edge_meta = [(''line'', ''1'')]\<rparr>}"
  by code_simp

end
